theory Spec2Isabelle
  imports Main "HOL-Library.Sublist" "HOL-Library.Multiset"
begin

section \<open>Strings and the Python library functions the filter calls\<close>

text \<open>
  A Python \<open>str\<close> is modelled by its UTF-8 encoding, a \<open>string\<close> (list of bytes).
  Equality, emptiness, set membership and the substring test \<open>a in b\<close> of two
  well-formed strings agree with Python's under this encoding. \<open>str.lower()\<close> is
  modelled on the ASCII letters; the case mapping of letters outside ASCII is not
  modelled.
\<close>

text \<open>An upper-case ASCII letter (65 to 90) becomes the byte 32 above it: bit 5 is set.\<close>

definition lower_char :: "char \<Rightarrow> char" where
  "lower_char c =
     (if 65 \<le> (of_char c :: nat) \<and> (of_char c :: nat) \<le> 90
      then (case c of Char b0 b1 b2 b3 b4 b5 b6 b7 \<Rightarrow> Char b0 b1 b2 b3 b4 True b6 b7)
      else c)"

definition lower :: "string \<Rightarrow> string" where
  "lower s = map lower_char s"

text \<open>
  Exceptions are values. \<open>re.compile\<close>, \<open>Pattern.search\<close> and \<open>int\<close> belong to the
  Python library, not to this program: they are parameters of the model, collected in
  a record. \<open>re_compile lib p\<close> stands for \<open>re.compile(p, re.IGNORECASE)\<close>.
\<close>

datatype py_exn = ReError | ValueError | TypeError | OverflowError | OtherException

record 'rx py_lib =
  re_compile :: "string \<Rightarrow> py_exn + 'rx"
  re_search :: "'rx \<Rightarrow> string \<Rightarrow> bool"
  py_int :: "string \<Rightarrow> py_exn + int"

text \<open>
  A condition on the library, not a fact about it: \<open>re.compile\<close> raises nothing but
  \<open>re.error\<close> and \<open>int\<close> nothing but \<open>ValueError\<close>. Under it no exception of the
  library leaves the filter. CPython does not meet it for every pattern:
  \<open>re.compile\<close> raises \<open>OverflowError\<close> for \<open>a{4294967296}\<close> and
  \<open>RecursionError\<close> for a deeply nested pattern. The statements on malformed
  patterns and on the counters do not use it.
\<close>

definition lib_ok :: "'rx py_lib \<Rightarrow> bool" where
  "lib_ok lib \<longleftrightarrow>
     (\<forall>p e. re_compile lib p = Inl e \<longrightarrow> e = ReError) \<and>
     (\<forall>p e. py_int lib p = Inl e \<longrightarrow> e = ValueError)"

section \<open>message_filter.py\<close>

subsection \<open>Data\<close>

text \<open>The message dictionary handed to the filter (keys id, from, to, text, channel).\<close>

record message =
  msg_id :: int
  from_node :: string
  to_node :: string
  msg_text :: string
  channel :: int

text \<open>The dataclass \<open>FilterRule\<close>; \<open>filter_type\<close> and \<open>action\<close> are plain strings.\<close>

record filter_rule =
  rule_name :: string
  filter_type :: string
  pattern :: string
  action :: string
  priority :: int

text \<open>One entry of \<open>custom_rules\<close> in the configuration: every key may be absent.\<close>

record rule_data =
  rd_name :: "string option"
  rd_type :: "string option"
  rd_pattern :: "string option"
  rd_action :: "string option"
  rd_priority :: "int option"

record filter_config =
  cfg_enabled :: bool
  cfg_whitelist_nodes :: "string list"
  cfg_blacklist_nodes :: "string list"
  cfg_keywords :: "string list"
  cfg_regex_patterns :: "string list"
  cfg_allowed_channels :: "int list"
  cfg_blocked_channels :: "int list"
  cfg_custom_rules :: "rule_data list"

record filter_stats =
  total_checked :: nat
  total_allowed :: nat
  total_blocked :: nat
  blocked_by_sender :: nat
  blocked_by_content :: nat
  blocked_by_channel :: nat

record 'rx message_filter =
  enabled :: bool
  whitelist_nodes :: "string set"
  blacklist_nodes :: "string set"
  content_keywords :: "string set"
  regex_patterns :: "'rx list"
  allowed_channels :: "int set"
  blocked_channels :: "int set"
  custom_rules :: "filter_rule list"
  stats :: filter_stats

subsection \<open>Construction: \<open>__init__\<close> and \<open>_load_custom_rules\<close>\<close>

text \<open>
  The loop of \<open>__init__\<close> over \<open>regex_patterns\<close>: a pattern whose compilation raises
  \<open>re.error\<close> is logged and left out, any other exception leaves the constructor.
\<close>

fun compile_patterns :: "'rx py_lib \<Rightarrow> string list \<Rightarrow> py_exn + 'rx list" where
  "compile_patterns lib [] = Inr []"
| "compile_patterns lib (p # ps) =
     (case re_compile lib p of
        Inl e \<Rightarrow> (if e = ReError then compile_patterns lib ps else Inl e)
      | Inr rx \<Rightarrow>
          (case compile_patterns lib ps of
             Inl e \<Rightarrow> Inl e
           | Inr rs \<Rightarrow> Inr (rx # rs)))"

definition rule_of_data :: "rule_data \<Rightarrow> filter_rule" where
  "rule_of_data d =
     \<lparr> rule_name = (case rd_name d of None \<Rightarrow> ''Unnamed'' | Some v \<Rightarrow> v),
       filter_type = (case rd_type d of None \<Rightarrow> ''keyword'' | Some v \<Rightarrow> v),
       pattern = (case rd_pattern d of None \<Rightarrow> [] | Some v \<Rightarrow> v),
       action = (case rd_action d of None \<Rightarrow> ''allow'' | Some v \<Rightarrow> v),
       priority = (case rd_priority d of None \<Rightarrow> 0 | Some v \<Rightarrow> v) \<rparr>"

text \<open>
  \<open>list.sort(key=priority, reverse=True)\<close> is stable: rules of equal priority keep
  their order. That is the stable insertion sort on the negated key.
\<close>

definition sort_by_priority :: "filter_rule list \<Rightarrow> filter_rule list" where
  "sort_by_priority rs = sort_key (\<lambda>r. - priority r) rs"

definition load_custom_rules :: "rule_data list \<Rightarrow> filter_rule list" where
  "load_custom_rules ds = sort_by_priority (map rule_of_data ds)"

definition zero_stats :: filter_stats where
  "zero_stats =
     \<lparr> total_checked = 0, total_allowed = 0, total_blocked = 0,
       blocked_by_sender = 0, blocked_by_content = 0, blocked_by_channel = 0 \<rparr>"

definition filter_init :: "'rx py_lib \<Rightarrow> filter_config \<Rightarrow> py_exn + 'rx message_filter" where
  "filter_init lib cfg =
     (case compile_patterns lib (cfg_regex_patterns cfg) of
        Inl e \<Rightarrow> Inl e
      | Inr rxs \<Rightarrow>
          Inr \<lparr> enabled = cfg_enabled cfg,
                whitelist_nodes = set (cfg_whitelist_nodes cfg),
                blacklist_nodes = set (cfg_blacklist_nodes cfg),
                content_keywords = set (cfg_keywords cfg),
                regex_patterns = rxs,
                allowed_channels = set (cfg_allowed_channels cfg),
                blocked_channels = set (cfg_blocked_channels cfg),
                custom_rules = load_custom_rules (cfg_custom_rules cfg),
                stats = zero_stats \<rparr>)"

text \<open>\<open>add_rule\<close> appends and sorts again.\<close>

definition add_rule :: "filter_rule \<Rightarrow> 'rx message_filter \<Rightarrow> 'rx message_filter" where
  "add_rule r f = f\<lparr>custom_rules := sort_by_priority (custom_rules f @ [r])\<rparr>"

subsection \<open>Evaluation\<close>

definition check_content :: "'rx py_lib \<Rightarrow> 'rx message_filter \<Rightarrow> string \<Rightarrow> bool" where
  "check_content lib f txt =
     (if txt = [] then True
      else if \<exists>k \<in> content_keywords f. sublist (lower k) (lower txt) then False
      else if \<exists>p \<in> set (regex_patterns f). re_search lib p txt then False
      else True)"

text \<open>
  \<open>_evaluate_rule\<close>: the two \<open>try\<close> blocks catch \<open>re.error\<close>, and \<open>ValueError\<close> or
  \<open>TypeError\<close>; anything else would propagate.
\<close>

definition evaluate_rule :: "'rx py_lib \<Rightarrow> filter_rule \<Rightarrow> message \<Rightarrow> py_exn + bool" where
  "evaluate_rule lib rule m =
     (if filter_type rule = ''keyword'' then
        Inr (sublist (lower (pattern rule)) (lower (msg_text m)))
      else if filter_type rule = ''regex'' then
        (case re_compile lib (pattern rule) of
           Inr p \<Rightarrow> Inr (re_search lib p (msg_text m))
         | Inl e \<Rightarrow> (if e = ReError then Inr False else Inl e))
      else if filter_type rule = ''sender'' then
        Inr (sublist (pattern rule) (from_node m))
      else if filter_type rule = ''channel'' then
        (case py_int lib (pattern rule) of
           Inr n \<Rightarrow> Inr (channel m = n)
         | Inl e \<Rightarrow> (if e = ValueError \<or> e = TypeError then Inr False else Inl e))
      else Inr False)"

text \<open>
  \<open>_check_custom_rules\<close>: a matching rule whose action is neither \<open>block\<close> nor
  \<open>allow\<close> decides nothing and the loop goes on.
\<close>

fun check_custom_rules :: "'rx py_lib \<Rightarrow> filter_rule list \<Rightarrow> message \<Rightarrow> py_exn + bool" where
  "check_custom_rules lib [] m = Inr True"
| "check_custom_rules lib (rule # rest) m =
     (case evaluate_rule lib rule m of
        Inl e \<Rightarrow> Inl e
      | Inr matched \<Rightarrow>
          (if matched then
             (if action rule = ''block'' then Inr False
              else if action rule = ''allow'' then Inr True
              else check_custom_rules lib rest m)
           else check_custom_rules lib rest m))"

definition count_checked :: "'rx message_filter \<Rightarrow> 'rx message_filter" where
  "count_checked f = f\<lparr>stats := (stats f)\<lparr>total_checked := total_checked (stats f) + 1\<rparr>\<rparr>"

definition count_allowed :: "'rx message_filter \<Rightarrow> 'rx message_filter" where
  "count_allowed f = f\<lparr>stats := (stats f)\<lparr>total_allowed := total_allowed (stats f) + 1\<rparr>\<rparr>"

definition count_blocked :: "'rx message_filter \<Rightarrow> 'rx message_filter" where
  "count_blocked f = f\<lparr>stats := (stats f)\<lparr>total_blocked := total_blocked (stats f) + 1\<rparr>\<rparr>"

definition count_by_sender :: "'rx message_filter \<Rightarrow> 'rx message_filter" where
  "count_by_sender f =
     f\<lparr>stats := (stats f)\<lparr>blocked_by_sender := blocked_by_sender (stats f) + 1\<rparr>\<rparr>"

definition count_by_channel :: "'rx message_filter \<Rightarrow> 'rx message_filter" where
  "count_by_channel f =
     f\<lparr>stats := (stats f)\<lparr>blocked_by_channel := blocked_by_channel (stats f) + 1\<rparr>\<rparr>"

definition count_by_content :: "'rx message_filter \<Rightarrow> 'rx message_filter" where
  "count_by_content f =
     f\<lparr>stats := (stats f)\<lparr>blocked_by_content := blocked_by_content (stats f) + 1\<rparr>\<rparr>"

text \<open>
  \<open>should_forward\<close> returns the filter with its counters updated, and either the
  verdict or the exception that left the method (the counters written before the
  exception stay written).
\<close>

definition should_forward ::
  "'rx py_lib \<Rightarrow> 'rx message_filter \<Rightarrow> message \<Rightarrow> (py_exn + bool) \<times> 'rx message_filter"
where
  "should_forward lib f m =
     (if \<not> enabled f then (Inr True, f)
      else
        let f1 = count_checked f in
        if whitelist_nodes f1 \<noteq> {} \<and> from_node m \<notin> whitelist_nodes f1 then
          (Inr False, count_by_sender (count_blocked f1))
        else if from_node m \<in> blacklist_nodes f1 then
          (Inr False, count_by_sender (count_blocked f1))
        else if allowed_channels f1 \<noteq> {} \<and> channel m \<notin> allowed_channels f1 then
          (Inr False, count_by_channel (count_blocked f1))
        else if channel m \<in> blocked_channels f1 then
          (Inr False, count_by_channel (count_blocked f1))
        else if \<not> check_content lib f1 (msg_text m) then
          (Inr False, count_by_content (count_blocked f1))
        else
          (case check_custom_rules lib (custom_rules f1) m of
             Inl e \<Rightarrow> (Inl e, f1)
           | Inr ok \<Rightarrow>
               (if \<not> ok then (Inr False, count_blocked f1)
                else (Inr True, count_allowed f1))))"

subsection \<open>Evaluation on a dictionary whose sender may be \<open>None\<close>\<close>

text \<open>
  \<open>_handle_message\<close> fills the key \<open>from\<close> with \<open>packet.get('fromId', 'unknown')\<close>,
  which is \<open>None\<close> when the packet carries the key with the value \<open>None\<close>. The
  methods \<open>_evaluate_rule\<close>, \<open>_check_custom_rules\<close> and \<open>should_forward\<close> again, on
  such a dictionary: \<open>None\<close> is a member of no set of node ids, and
  \<open>rule.pattern in None\<close> raises \<open>TypeError\<close> outside any \<open>try\<close>.
\<close>

record dict_message =
  d_id :: int
  d_from :: "string option"
  d_to :: string
  d_text :: string
  d_channel :: int

definition sender_in :: "string option \<Rightarrow> string set \<Rightarrow> bool" where
  "sender_in s A = (case s of None \<Rightarrow> False | Some n \<Rightarrow> n \<in> A)"

definition evaluate_rule_dict ::
  "'rx py_lib \<Rightarrow> filter_rule \<Rightarrow> dict_message \<Rightarrow> py_exn + bool"
where
  "evaluate_rule_dict lib rule m =
     (if filter_type rule = ''keyword'' then
        Inr (sublist (lower (pattern rule)) (lower (d_text m)))
      else if filter_type rule = ''regex'' then
        (case re_compile lib (pattern rule) of
           Inr p \<Rightarrow> Inr (re_search lib p (d_text m))
         | Inl e \<Rightarrow> (if e = ReError then Inr False else Inl e))
      else if filter_type rule = ''sender'' then
        (case d_from m of
           None \<Rightarrow> Inl TypeError
         | Some n \<Rightarrow> Inr (sublist (pattern rule) n))
      else if filter_type rule = ''channel'' then
        (case py_int lib (pattern rule) of
           Inr n \<Rightarrow> Inr (d_channel m = n)
         | Inl e \<Rightarrow> (if e = ValueError \<or> e = TypeError then Inr False else Inl e))
      else Inr False)"

fun check_custom_rules_dict ::
  "'rx py_lib \<Rightarrow> filter_rule list \<Rightarrow> dict_message \<Rightarrow> py_exn + bool"
where
  "check_custom_rules_dict lib [] m = Inr True"
| "check_custom_rules_dict lib (rule # rest) m =
     (case evaluate_rule_dict lib rule m of
        Inl e \<Rightarrow> Inl e
      | Inr matched \<Rightarrow>
          (if matched then
             (if action rule = ''block'' then Inr False
              else if action rule = ''allow'' then Inr True
              else check_custom_rules_dict lib rest m)
           else check_custom_rules_dict lib rest m))"

definition should_forward_dict ::
  "'rx py_lib \<Rightarrow> 'rx message_filter \<Rightarrow> dict_message \<Rightarrow>
   (py_exn + bool) \<times> 'rx message_filter"
where
  "should_forward_dict lib f m =
     (if \<not> enabled f then (Inr True, f)
      else
        let f1 = count_checked f in
        if whitelist_nodes f1 \<noteq> {} \<and> \<not> sender_in (d_from m) (whitelist_nodes f1) then
          (Inr False, count_by_sender (count_blocked f1))
        else if sender_in (d_from m) (blacklist_nodes f1) then
          (Inr False, count_by_sender (count_blocked f1))
        else if allowed_channels f1 \<noteq> {} \<and> d_channel m \<notin> allowed_channels f1 then
          (Inr False, count_by_channel (count_blocked f1))
        else if d_channel m \<in> blocked_channels f1 then
          (Inr False, count_by_channel (count_blocked f1))
        else if \<not> check_content lib f1 (d_text m) then
          (Inr False, count_by_content (count_blocked f1))
        else
          (case check_custom_rules_dict lib (custom_rules f1) m of
             Inl e \<Rightarrow> (Inl e, f1)
           | Inr ok \<Rightarrow>
               (if \<not> ok then (Inr False, count_blocked f1)
                else (Inr True, count_allowed f1))))"

text \<open>The dictionary of a message whose sender is a string.\<close>

definition dict_of :: "message \<Rightarrow> dict_message" where
  "dict_of m =
     \<lparr> d_id = msg_id m, d_from = Some (from_node m), d_to = to_node m,
       d_text = msg_text m, d_channel = channel m \<rparr>"

text \<open>
  A compilation that raises something else than \<open>re.error\<close>: no \<open>except\<close> clause
  of the filter catches it.
\<close>

definition raises_other :: "'rx py_lib \<Rightarrow> string \<Rightarrow> bool" where
  "raises_other lib p = (case re_compile lib p of Inl e \<Rightarrow> e \<noteq> ReError | Inr rx \<Rightarrow> False)"

section \<open>The dedup tracker\<close>

text \<open>
  Modelled from the spec: the class \<open>MessageTracker\<close> (module \<open>bridge\<close>) with its
  methods \<open>has_seen\<close>, \<open>add_message\<close> and \<open>mark_forwarded\<close>, which the router
  imports and calls. The definitions follow the contract of the History Tracker:
  \<open>Seen\<close>, \<open>Record\<close>, \<open>MarkForwarded\<close> and the eviction policy (purge by age, then
  remove the oldest entries down to the capacity). Entries are kept in the order of
  their insertion.
\<close>

record tracked_entry =
  entry_id :: int
  entry_from :: string
  entry_to :: string
  entry_text :: string
  entry_channel :: int
  firstSeenAt :: int
  forwarded :: bool
  forwardCount :: nat

record tracker =
  entries :: "tracked_entry list"
  maxAge :: int
  maxMessages :: nat
  totalRecorded :: nat
  totalForwarded :: nat

definition Seen :: "tracker \<Rightarrow> int \<Rightarrow> bool" where
  "Seen t i \<longleftrightarrow> (\<exists>e \<in> set (entries t). entry_id e = i)"

definition purge_old :: "int \<Rightarrow> int \<Rightarrow> tracked_entry list \<Rightarrow> tracked_entry list" where
  "purge_old now age es = filter (\<lambda>e. \<not> (now - firstSeenAt e > age)) es"

definition remove_oldest :: "tracked_entry list \<Rightarrow> tracked_entry list" where
  "remove_oldest es = (if es = [] then [] else remove1 (arg_min_list firstSeenAt es) es)"

fun evict :: "nat \<Rightarrow> tracked_entry list \<Rightarrow> tracked_entry list" where
  "evict 0 es = es"
| "evict (Suc k) es = evict k (remove_oldest es)"

definition Record ::
  "tracker \<Rightarrow> int \<Rightarrow> string \<Rightarrow> string \<Rightarrow> string \<Rightarrow> int \<Rightarrow> int \<Rightarrow> tracker" where
  "Record t i frm to txt ch now =
     (if Seen t i then t
      else
        let e = \<lparr> entry_id = i, entry_from = frm, entry_to = to, entry_text = txt,
                  entry_channel = ch, firstSeenAt = now, forwarded = False,
                  forwardCount = 0 \<rparr>;
            es = purge_old now (maxAge t) (entries t @ [e])
        in t\<lparr> entries := evict (length es - maxMessages t) es,
               totalRecorded := totalRecorded t + 1 \<rparr>)"

definition MarkForwarded :: "tracker \<Rightarrow> int \<Rightarrow> tracker" where
  "MarkForwarded t i =
     (if Seen t i then
        t\<lparr> entries :=
             map (\<lambda>e. if entry_id e = i
                       then e\<lparr>forwarded := True, forwardCount := forwardCount e + 1\<rparr>
                       else e) (entries t),
           totalForwarded := totalForwarded t + 1 \<rparr>
      else t)"

section \<open>bridge_enhanced.py\<close>

subsection \<open>Decoding the payload\<close>

text \<open>
  \<open>payload.decode('utf-8', errors='ignore')\<close>: a well-formed UTF-8 sequence is kept,
  a byte at which no well-formed sequence starts is skipped, and decoding goes on
  with the next byte. The result is given in UTF-8, as every string of the model.
\<close>

definition cont_byte :: "char \<Rightarrow> bool" where
  "cont_byte c \<longleftrightarrow> 128 \<le> (of_char c :: nat) \<and> (of_char c :: nat) \<le> 191"

definition seq1 :: "char \<Rightarrow> bool" where
  "seq1 a \<longleftrightarrow> (of_char a :: nat) < 128"

definition seq2 :: "char \<Rightarrow> char \<Rightarrow> bool" where
  "seq2 a b \<longleftrightarrow> 194 \<le> (of_char a :: nat) \<and> (of_char a :: nat) \<le> 223 \<and> cont_byte b"

definition seq3 :: "char \<Rightarrow> char \<Rightarrow> char \<Rightarrow> bool" where
  "seq3 a b c \<longleftrightarrow>
     (let x = (of_char a :: nat); y = (of_char b :: nat) in
        (x = 224 \<and> 160 \<le> y \<and> y \<le> 191 \<or>
         (225 \<le> x \<and> x \<le> 236 \<or> 238 \<le> x \<and> x \<le> 239) \<and> cont_byte b \<or>
         x = 237 \<and> 128 \<le> y \<and> y \<le> 159)
        \<and> cont_byte c)"

definition seq4 :: "char \<Rightarrow> char \<Rightarrow> char \<Rightarrow> char \<Rightarrow> bool" where
  "seq4 a b c d \<longleftrightarrow>
     (let x = (of_char a :: nat); y = (of_char b :: nat) in
        (x = 240 \<and> 144 \<le> y \<and> y \<le> 191 \<or>
         241 \<le> x \<and> x \<le> 243 \<and> cont_byte b \<or>
         x = 244 \<and> 128 \<le> y \<and> y \<le> 143)
        \<and> cont_byte c \<and> cont_byte d)"

fun decode_ignore :: "char list \<Rightarrow> string" where
  "decode_ignore [] = []"
| "decode_ignore [a] = (if seq1 a then [a] else [])"
| "decode_ignore [a, b] =
     (if seq1 a then a # decode_ignore [b]
      else if seq2 a b then [a, b]
      else decode_ignore [b])"
| "decode_ignore [a, b, c] =
     (if seq1 a then a # decode_ignore [b, c]
      else if seq2 a b then a # b # decode_ignore [c]
      else if seq3 a b c then [a, b, c]
      else decode_ignore [b, c])"
| "decode_ignore (a # b # c # d # rest) =
     (if seq1 a then a # decode_ignore (b # c # d # rest)
      else if seq2 a b then a # b # decode_ignore (c # d # rest)
      else if seq3 a b c then a # b # c # decode_ignore (d # rest)
      else if seq4 a b c d then a # b # c # d # decode_ignore rest
      else decode_ignore (b # c # d # rest))"

text \<open>
  The decoding the specification describes, for comparison: every skipped byte is
  replaced by U+FFFD (in UTF-8 the three bytes EF BF BD) instead of being left out.
\<close>

definition replacement_char :: string where
  "replacement_char = [CHR 0xEF, CHR 0xBF, CHR 0xBD]"

fun spec_decode_replace :: "char list \<Rightarrow> string" where
  "spec_decode_replace [] = []"
| "spec_decode_replace [a] = (if seq1 a then [a] else replacement_char)"
| "spec_decode_replace [a, b] =
     (if seq1 a then a # spec_decode_replace [b]
      else if seq2 a b then [a, b]
      else replacement_char @ spec_decode_replace [b])"
| "spec_decode_replace [a, b, c] =
     (if seq1 a then a # spec_decode_replace [b, c]
      else if seq2 a b then a # b # spec_decode_replace [c]
      else if seq3 a b c then [a, b, c]
      else replacement_char @ spec_decode_replace [b, c])"
| "spec_decode_replace (a # b # c # d # rest) =
     (if seq1 a then a # spec_decode_replace (b # c # d # rest)
      else if seq2 a b then a # b # spec_decode_replace (c # d # rest)
      else if seq3 a b c then a # b # c # spec_decode_replace (d # rest)
      else if seq4 a b c d then a # b # c # d # spec_decode_replace rest
      else replacement_char @ spec_decode_replace (b # c # d # rest))"

text \<open>Well-formed UTF-8: a concatenation of well-formed sequences.\<close>

inductive well_formed_utf8 :: "char list \<Rightarrow> bool" where
  wf_nil: "well_formed_utf8 []"
| wf_1: "seq1 a \<Longrightarrow> well_formed_utf8 r \<Longrightarrow> well_formed_utf8 (a # r)"
| wf_2: "seq2 a b \<Longrightarrow> well_formed_utf8 r \<Longrightarrow> well_formed_utf8 (a # b # r)"
| wf_3: "seq3 a b c \<Longrightarrow> well_formed_utf8 r \<Longrightarrow> well_formed_utf8 (a # b # c # r)"
| wf_4: "seq4 a b c d \<Longrightarrow> well_formed_utf8 r \<Longrightarrow> well_formed_utf8 (a # b # c # d # r)"

text \<open>
  The payload of a packet: a byte string, or any other object, of which the router
  takes \<open>str(payload)\<close>.
\<close>

datatype payload = Bytes "char list" | NotBytes string

definition payload_text :: "payload option \<Rightarrow> string" where
  "payload_text p =
     (case p of
        None \<Rightarrow> decode_ignore []
      | Some (Bytes bs) \<Rightarrow> decode_ignore bs
      | Some (NotBytes r) \<Rightarrow> r)"

subsection \<open>Router state\<close>

text \<open>A received packet: a dictionary whose keys may be absent.\<close>

record decoded_part =
  portnum :: "string option"
  payload :: "payload option"

record packet =
  pkt_decoded :: "decoded_part option"
  pkt_id :: "int option"
  fromId :: "string option"
  toId :: "string option"
  pkt_channel :: "int option"

record radio_stats =
  received :: nat
  sent :: nat
  errors :: nat

text \<open>
  \<open>connect\<close> registers the k-th interface under the name \<open>radio(k+1)\<close> and creates
  its statistics entry, so the dictionaries keyed by radio name are indexed here by
  the position k of the interface. The per-radio dictionaries of \<open>MetricsCollector\<close>
  hold the keys \<open>radio1\<close> and \<open>radio2\<close> only (positions 0 and 1) and an increment for
  another radio is ignored. The processing-time samples are left out.
\<close>

record metrics =
  messages_received_total :: "nat \<Rightarrow> nat"
  messages_sent_total :: "nat \<Rightarrow> nat"
  messages_errors_total :: "nat \<Rightarrow> nat"
  messages_forwarded_total :: nat
  messages_dropped_total :: nat
  messages_filtered_total :: nat
  node_message_counts :: "string \<Rightarrow> nat"

text \<open>
  The calls the router makes on the radio interfaces and on the tracker are logged
  in \<open>calls\<close>, in the order they are made. The database, the MQTT bridge and the web
  interface only consume the events handed to them and catch their own exceptions;
  they are not part of the state.
\<close>

datatype call =
    SendText nat string int
  | TrackerAdd int
  | TrackerMarkForwarded int

record 'rx bridge =
  n_interfaces :: nat
  tracker :: tracker
  message_filter :: "'rx message_filter option"
  radio_stats_of :: "nat \<Rightarrow> radio_stats"
  metrics_of :: "metrics option"
  calls :: "call list"

definition increment_received :: "nat \<Rightarrow> metrics \<Rightarrow> metrics" where
  "increment_received k mt =
     (if k < 2
      then mt\<lparr>messages_received_total :=
                (messages_received_total mt)(k := messages_received_total mt k + 1)\<rparr>
      else mt)"

definition increment_sent :: "nat \<Rightarrow> metrics \<Rightarrow> metrics" where
  "increment_sent k mt =
     (if k < 2
      then mt\<lparr>messages_sent_total :=
                (messages_sent_total mt)(k := messages_sent_total mt k + 1)\<rparr>
      else mt)"

definition increment_errors :: "nat \<Rightarrow> metrics \<Rightarrow> metrics" where
  "increment_errors k mt =
     (if k < 2
      then mt\<lparr>messages_errors_total :=
                (messages_errors_total mt)(k := messages_errors_total mt k + 1)\<rparr>
      else mt)"

definition increment_forwarded :: "metrics \<Rightarrow> metrics" where
  "increment_forwarded mt = mt\<lparr>messages_forwarded_total := messages_forwarded_total mt + 1\<rparr>"

definition increment_dropped :: "metrics \<Rightarrow> metrics" where
  "increment_dropped mt = mt\<lparr>messages_dropped_total := messages_dropped_total mt + 1\<rparr>"

definition increment_filtered :: "metrics \<Rightarrow> metrics" where
  "increment_filtered mt = mt\<lparr>messages_filtered_total := messages_filtered_total mt + 1\<rparr>"

definition increment_node_messages :: "string \<Rightarrow> metrics \<Rightarrow> metrics" where
  "increment_node_messages node mt =
     mt\<lparr>node_message_counts := (node_message_counts mt)(node := node_message_counts mt node + 1)\<rparr>"

subsection \<open>\<open>_handle_message\<close>\<close>

text \<open>
  One target of the fan-out, after the test \<open>idx == source_idx\<close>: the \<open>try\<close> block
  around \<open>sendText\<close>. Whether the call returns or raises is decided by the radio;
  \<open>send_ok k txt ch\<close> tells which.
\<close>

definition send_succeeded :: "nat \<Rightarrow> int \<Rightarrow> 'rx bridge \<Rightarrow> 'rx bridge" where
  "send_succeeded k mid s =
     s\<lparr> tracker := MarkForwarded (tracker s) mid,
        calls := calls s @ [TrackerMarkForwarded mid],
        radio_stats_of :=
          (radio_stats_of s)(k := (radio_stats_of s k)\<lparr>sent := sent (radio_stats_of s k) + 1\<rparr>),
        metrics_of := map_option (increment_forwarded \<circ> increment_sent k) (metrics_of s) \<rparr>"

definition send_failed :: "nat \<Rightarrow> 'rx bridge \<Rightarrow> 'rx bridge" where
  "send_failed k s =
     s\<lparr> radio_stats_of :=
          (radio_stats_of s)(k := (radio_stats_of s k)\<lparr>errors := errors (radio_stats_of s k) + 1\<rparr>),
        metrics_of := map_option (increment_dropped \<circ> increment_errors k) (metrics_of s) \<rparr>"

definition forward_one ::
  "(nat \<Rightarrow> string \<Rightarrow> int \<Rightarrow> bool) \<Rightarrow> int \<Rightarrow> string \<Rightarrow> int \<Rightarrow> nat \<Rightarrow> 'rx bridge \<Rightarrow> 'rx bridge"
where
  "forward_one send_ok mid txt ch k s =
     (let s1 = s\<lparr>calls := calls s @ [SendText k txt ch]\<rparr> in
      if send_ok k txt ch then send_succeeded k mid s1 else send_failed k s1)"

text \<open>The loop \<open>for idx, interface in enumerate(self.interfaces)\<close>.\<close>

fun forward_loop ::
  "(nat \<Rightarrow> string \<Rightarrow> int \<Rightarrow> bool) \<Rightarrow> nat \<Rightarrow> int \<Rightarrow> string \<Rightarrow> int \<Rightarrow> nat list \<Rightarrow>
   'rx bridge \<Rightarrow> 'rx bridge"
where
  "forward_loop send_ok source_idx mid txt ch [] s = s"
| "forward_loop send_ok source_idx mid txt ch (idx # rest) s =
     (if idx = source_idx then forward_loop send_ok source_idx mid txt ch rest s
      else forward_loop send_ok source_idx mid txt ch rest
             (forward_one send_ok mid txt ch idx s))"

text \<open>The part of \<open>_handle_message\<close> after the filter: record, count, fan out.\<close>

definition record_and_forward ::
  "(nat \<Rightarrow> string \<Rightarrow> int \<Rightarrow> bool) \<Rightarrow> int \<Rightarrow> message \<Rightarrow> nat \<Rightarrow> 'rx bridge \<Rightarrow> 'rx bridge"
where
  "record_and_forward send_ok now m source_idx s =
     (let s1 = s\<lparr> tracker := Record (tracker s) (msg_id m) (from_node m) (to_node m)
                               (msg_text m) (channel m) now,
                   calls := calls s @ [TrackerAdd (msg_id m)] \<rparr>;
          s2 = s1\<lparr> radio_stats_of :=
                     (radio_stats_of s1)(source_idx :=
                        (radio_stats_of s1 source_idx)
                          \<lparr>received := received (radio_stats_of s1 source_idx) + 1\<rparr>),
                   metrics_of :=
                     map_option (increment_node_messages (from_node m) \<circ>
                                 increment_received source_idx) (metrics_of s1) \<rparr>
      in forward_loop send_ok source_idx (msg_id m) (msg_text m) (channel m)
           [0..<n_interfaces s2] s2)"

text \<open>
  \<open>_handle_message\<close>. An exception that leaves \<open>should_forward\<close> is caught by the
  outer \<open>except\<close>: the pass ends there, with the counters the filter had written.
\<close>

definition message_of_packet :: "packet \<Rightarrow> decoded_part \<Rightarrow> message" where
  "message_of_packet pkt d =
     \<lparr> msg_id = (case pkt_id pkt of None \<Rightarrow> 0 | Some i \<Rightarrow> i),
       from_node = (case fromId pkt of None \<Rightarrow> ''unknown'' | Some n \<Rightarrow> n),
       to_node = (case toId pkt of None \<Rightarrow> ''unknown'' | Some n \<Rightarrow> n),
       msg_text = payload_text (payload d),
       channel = (case pkt_channel pkt of None \<Rightarrow> 0 | Some c \<Rightarrow> c) \<rparr>"

definition handle_message ::
  "'rx py_lib \<Rightarrow> (nat \<Rightarrow> string \<Rightarrow> int \<Rightarrow> bool) \<Rightarrow> int \<Rightarrow> 'rx bridge \<Rightarrow> packet \<Rightarrow> nat \<Rightarrow>
   'rx bridge"
where
  "handle_message lib send_ok now s pkt source_idx =
     (case pkt_decoded pkt of
        None \<Rightarrow> s
      | Some d \<Rightarrow>
          if portnum d \<noteq> Some ''TEXT_MESSAGE_APP'' then s
          else
            let m = message_of_packet pkt d in
            if Seen (tracker s) (msg_id m) then s
            else
              (case message_filter s of
                 None \<Rightarrow> record_and_forward send_ok now m source_idx s
               | Some f \<Rightarrow>
                   (case should_forward lib f m of
                      (Inl e, f') \<Rightarrow> s\<lparr>message_filter := Some f'\<rparr>
                    | (Inr ok, f') \<Rightarrow>
                        if \<not> ok then
                          s\<lparr> message_filter := Some f',
                             metrics_of := map_option increment_filtered (metrics_of s) \<rparr>
                        else
                          record_and_forward send_ok now m source_idx
                            (s\<lparr>message_filter := Some f'\<rparr>))))"

section \<open>The admission order of the specification\<close>

text \<open>
  The evaluation order the specification gives for the filter engine, as a cascade
  that names the step which decided. The condition of the content step is a
  parameter \<open>content_hit\<close>; the custom rules are the sixth step.
\<close>

datatype verdict =
    Block_not_in_allowlist
  | Block_in_denylist
  | Block_channel_not_allowed
  | Block_channel_blocked
  | Block_content_match
  | Block_custom_rule
  | Admit

definition spec_content_match :: "'rx py_lib \<Rightarrow> 'rx message_filter \<Rightarrow> string \<Rightarrow> bool" where
  "spec_content_match lib f txt \<longleftrightarrow>
     (\<exists>k \<in> content_keywords f. sublist (lower k) (lower txt)) \<or>
     (\<exists>p \<in> set (regex_patterns f). re_search lib p txt)"

definition admission_steps ::
  "'rx py_lib \<Rightarrow> 'rx message_filter \<Rightarrow> message \<Rightarrow> bool \<Rightarrow> verdict" where
  "admission_steps lib f m content_hit =
     (if whitelist_nodes f \<noteq> {} \<and> from_node m \<notin> whitelist_nodes f then Block_not_in_allowlist
      else if from_node m \<in> blacklist_nodes f then Block_in_denylist
      else if allowed_channels f \<noteq> {} \<and> channel m \<notin> allowed_channels f
        then Block_channel_not_allowed
      else if channel m \<in> blocked_channels f then Block_channel_blocked
      else if content_hit then Block_content_match
      else if check_custom_rules lib (custom_rules f) m = Inr False then Block_custom_rule
      else Admit)"

text \<open>The step of the specification as it is worded: any match on the text blocks.\<close>

definition spec_admit :: "'rx py_lib \<Rightarrow> 'rx message_filter \<Rightarrow> message \<Rightarrow> verdict" where
  "spec_admit lib f m = admission_steps lib f m (spec_content_match lib f (msg_text m))"

text \<open>The counters an outcome increments: the totals and the breakdown by reason.\<close>

definition count_verdict :: "verdict \<Rightarrow> filter_stats \<Rightarrow> filter_stats" where
  "count_verdict v st =
     st\<lparr> total_checked := total_checked st + 1,
         total_allowed := total_allowed st + (if v = Admit then 1 else 0),
         total_blocked := total_blocked st + (if v = Admit then 0 else 1),
         blocked_by_sender := blocked_by_sender st +
           (if v = Block_not_in_allowlist \<or> v = Block_in_denylist then 1 else 0),
         blocked_by_channel := blocked_by_channel st +
           (if v = Block_channel_not_allowed \<or> v = Block_channel_blocked then 1 else 0),
         blocked_by_content := blocked_by_content st +
           (if v = Block_content_match then 1 else 0) \<rparr>"

section \<open>Observations on the call log\<close>

definition new_calls :: "'rx bridge \<Rightarrow> 'rx bridge \<Rightarrow> call list" where
  "new_calls s s' = drop (length (calls s)) (calls s')"

fun send_targets :: "call list \<Rightarrow> nat list" where
  "send_targets [] = []"
| "send_targets (SendText k txt ch # cs) = k # send_targets cs"
| "send_targets (c # cs) = send_targets cs"

fun is_send :: "call \<Rightarrow> bool" where
  "is_send (SendText k txt ch) = True"
| "is_send c = False"

fun mark_calls :: "call list \<Rightarrow> int list" where
  "mark_calls [] = []"
| "mark_calls (TrackerMarkForwarded i # cs) = i # mark_calls cs"
| "mark_calls (c # cs) = mark_calls cs"

text \<open>The calls one run of the fan-out loop over the positions \<open>ks\<close> makes.\<close>

definition loop_calls ::
  "(nat \<Rightarrow> string \<Rightarrow> int \<Rightarrow> bool) \<Rightarrow> nat \<Rightarrow> int \<Rightarrow> string \<Rightarrow> int \<Rightarrow> nat list \<Rightarrow> call list" where
  "loop_calls send_ok source_idx mid txt ch ks =
     concat (map (\<lambda>k. if k = source_idx then []
                        else if send_ok k txt ch
                          then [SendText k txt ch, TrackerMarkForwarded mid]
                          else [SendText k txt ch]) ks)"

text \<open>The entry of the tracker for an identifier reports it forwarded.\<close>

definition forwarded_flag :: "tracker \<Rightarrow> int \<Rightarrow> bool" where
  "forwarded_flag t i \<longleftrightarrow> Seen t i \<and> (\<forall>e \<in> set (entries t). entry_id e = i \<longrightarrow> forwarded e)"

text \<open>
  A packet is a text message with the fields of \<open>m\<close>; the router admits \<open>m\<close> in
  state \<open>s\<close>: not seen before, and no filter or a filter that lets it pass.
\<close>

definition text_packet :: "packet \<Rightarrow> message \<Rightarrow> bool" where
  "text_packet pkt m \<longleftrightarrow>
     (case pkt_decoded pkt of
        None \<Rightarrow> False
      | Some d \<Rightarrow> portnum d = Some ''TEXT_MESSAGE_APP'' \<and> m = message_of_packet pkt d)"

definition admitted :: "'rx py_lib \<Rightarrow> 'rx bridge \<Rightarrow> message \<Rightarrow> bool" where
  "admitted lib s m \<longleftrightarrow>
     \<not> Seen (tracker s) (msg_id m) \<and>
     (case message_filter s of
        None \<Rightarrow> True
      | Some f \<Rightarrow> fst (should_forward lib f m) = Inr True)"

definition rejected :: "'rx py_lib \<Rightarrow> 'rx bridge \<Rightarrow> message \<Rightarrow> bool" where
  "rejected lib s m \<longleftrightarrow>
     \<not> Seen (tracker s) (msg_id m) \<and>
     (case message_filter s of
        None \<Rightarrow> False
      | Some f \<Rightarrow> fst (should_forward lib f m) = Inr False)"

text \<open>The patterns of a list that compile, in the order of the list.\<close>

definition compiled :: "'rx py_lib \<Rightarrow> string list \<Rightarrow> 'rx list" where
  "compiled lib ps =
     concat (map (\<lambda>p. case re_compile lib p of Inl e \<Rightarrow> [] | Inr rx \<Rightarrow> [rx]) ps)"

section \<open>Concrete instances\<close>

text \<open>
  A small instance of the library, for evaluating the model on concrete inputs: a
  pattern is a literal searched without regard to case, the pattern \<open>(\<close> does not
  compile (as in Python, where the group is unterminated), and \<open>int\<close> reads an
  unsigned decimal numeral.
\<close>

definition dec_int :: "string \<Rightarrow> py_exn + int" where
  "dec_int s =
     (if s \<noteq> [] \<and> (\<forall>c \<in> set s. 48 \<le> (of_char c :: nat) \<and> (of_char c :: nat) \<le> 57)
      then Inr (foldl (\<lambda>a c. 10 * a + (int (of_char c) - 48)) 0 s)
      else Inl ValueError)"

definition literal_lib :: "string py_lib" where
  "literal_lib =
     \<lparr> re_compile = (\<lambda>p. if p = ''('' then Inl ReError else Inr p),
       re_search = (\<lambda>p t. sublist (lower p) (lower t)),
       py_int = dec_int \<rparr>"

definition empty_config :: filter_config where
  "empty_config =
     \<lparr> cfg_enabled = True, cfg_whitelist_nodes = [], cfg_blacklist_nodes = [],
       cfg_keywords = [], cfg_regex_patterns = [], cfg_allowed_channels = [],
       cfg_blocked_channels = [], cfg_custom_rules = [] \<rparr>"

definition empty_filter :: "string message_filter" where
  "empty_filter =
     \<lparr> enabled = True, whitelist_nodes = {}, blacklist_nodes = {},
       content_keywords = {}, regex_patterns = [], allowed_channels = {},
       blocked_channels = {}, custom_rules = [], stats = zero_stats \<rparr>"

definition hello :: message where
  "hello =
     \<lparr> msg_id = 1, from_node = ''N1'', to_node = ''broadcast'', msg_text = ''hi'',
       channel = 0 \<rparr>"

definition hello_packet :: packet where
  "hello_packet =
     \<lparr> pkt_decoded = Some \<lparr> portnum = Some ''TEXT_MESSAGE_APP'', payload = Some (Bytes ''hi'') \<rparr>,
       pkt_id = Some 1, fromId = Some ''N1'', toId = Some ''broadcast'',
       pkt_channel = Some 0 \<rparr>"

definition empty_tracker :: tracker where
  "empty_tracker =
     \<lparr> entries = [], maxAge = 600, maxMessages = 1000, totalRecorded = 0,
       totalForwarded = 0 \<rparr>"

definition zero_radio_stats :: radio_stats where
  "zero_radio_stats = \<lparr> received = 0, sent = 0, errors = 0 \<rparr>"

definition bridge_of :: "nat \<Rightarrow> string message_filter option \<Rightarrow> string bridge" where
  "bridge_of n f =
     \<lparr> n_interfaces = n, tracker = empty_tracker, message_filter = f,
       radio_stats_of = (\<lambda>k. zero_radio_stats), metrics_of = None, calls = [] \<rparr>"

text \<open>Filters and messages for the order of the checks.\<close>

definition empty_keyword_filter :: "string message_filter" where
  "empty_keyword_filter = empty_filter\<lparr>content_keywords := {[]}\<rparr>"

definition empty_text :: message where
  "empty_text = hello\<lparr>msg_text := []\<rparr>"

definition disabled_filter :: "string message_filter" where
  "disabled_filter = empty_filter\<lparr>enabled := False, blacklist_nodes := {''N1''}\<rparr>"

definition layered_filter :: "string message_filter" where
  "layered_filter =
     empty_filter\<lparr> blacklist_nodes := {''N2''}, blocked_channels := {0},
                   content_keywords := {''spam''} \<rparr>"

definition spam_from_N2 :: message where
  "spam_from_N2 =
     \<lparr> msg_id = 2, from_node = ''N2'', to_node = ''broadcast'', msg_text = ''Spam'',
       channel = 0 \<rparr>"

text \<open>The two rules of the priority example, in the configuration in the wrong order.\<close>

definition emergency_rule :: rule_data where
  "emergency_rule =
     \<lparr> rd_name = Some ''Emergency Priority'', rd_type = Some ''keyword'',
       rd_pattern = Some ''EMERGENCY'', rd_action = Some ''allow'', rd_priority = Some 100 \<rparr>"

definition bad_sender_rule :: rule_data where
  "bad_sender_rule =
     \<lparr> rd_name = Some ''Bad sender'', rd_type = Some ''sender'',
       rd_pattern = Some ''bad123456'', rd_action = Some ''block'', rd_priority = Some 0 \<rparr>"

definition emergency_config :: filter_config where
  "emergency_config = empty_config\<lparr>cfg_custom_rules := [bad_sender_rule, emergency_rule]\<rparr>"

definition emergency_message :: "string \<Rightarrow> string \<Rightarrow> message" where
  "emergency_message pre post =
     \<lparr> msg_id = 5, from_node = ''bad123456'', to_node = ''broadcast'',
       msg_text = pre @ ''EMERGENCY'' @ post, channel = 0 \<rparr>"

text \<open>Radios: every send succeeds, or every send succeeds but the one to position \<open>j\<close>.\<close>

definition all_ok :: "nat \<Rightarrow> string \<Rightarrow> int \<Rightarrow> bool" where
  "all_ok k txt ch = True"

definition fails_at :: "nat \<Rightarrow> nat \<Rightarrow> string \<Rightarrow> int \<Rightarrow> bool" where
  "fails_at j k txt ch \<longleftrightarrow> k \<noteq> j"

text \<open>A router that has already recorded and forwarded message 7 at time 0.\<close>

definition earlier_entry :: tracked_entry where
  "earlier_entry =
     \<lparr> entry_id = 7, entry_from = ''N2'', entry_to = ''broadcast'', entry_text = ''hi'',
       entry_channel = 0, firstSeenAt = 0, forwarded = True, forwardCount = 2 \<rparr>"

definition busy_bridge :: "nat \<Rightarrow> string bridge" where
  "busy_bridge n = (bridge_of n None)\<lparr>tracker := empty_tracker\<lparr>entries := [earlier_entry]\<rparr>\<rparr>"

definition none_ok :: "nat \<Rightarrow> string \<Rightarrow> int \<Rightarrow> bool" where
  "none_ok k txt ch = False"

text \<open>A filter with the deny-list \<open>[N2]\<close> and a message from \<open>N2\<close>.\<close>

definition n2_filter :: "string message_filter" where
  "n2_filter = empty_filter\<lparr>blacklist_nodes := {''N2''}\<rparr>"

definition n2_message :: message where
  "n2_message =
     \<lparr> msg_id = 7, from_node = ''N2'', to_node = ''broadcast'', msg_text = ''hi'',
       channel = 0 \<rparr>"

definition n2_packet :: packet where
  "n2_packet =
     \<lparr> pkt_decoded = Some \<lparr> portnum = Some ''TEXT_MESSAGE_APP'', payload = Some (Bytes ''hi'') \<rparr>,
       pkt_id = Some 7, fromId = Some ''N2'', toId = Some ''broadcast'',
       pkt_channel = Some 0 \<rparr>"

text \<open>A configuration with a malformed pattern in the content filters and in a rule.\<close>

definition bad_regex_rule :: rule_data where
  "bad_regex_rule =
     \<lparr> rd_name = Some ''Broken'', rd_type = Some ''regex'', rd_pattern = Some ''('',
       rd_action = Some ''block'', rd_priority = Some 5 \<rparr>"

definition bad_regex_config :: filter_config where
  "bad_regex_config =
     empty_config\<lparr> cfg_regex_patterns := [''('', ''spam''],
                    cfg_custom_rules := [bad_regex_rule] \<rparr>"

text \<open>
  A pattern for which CPython's \<open>re.compile\<close> raises \<open>OverflowError\<close> (the repeat
  count is too large), the library instance that does so, and a configuration with
  a custom rule of kind regex that has this pattern.
\<close>

definition overflow_pattern :: string where
  "overflow_pattern = ''a{4294967296}''"

definition overflow_lib :: "string py_lib" where
  "overflow_lib =
     literal_lib\<lparr>re_compile :=
       (\<lambda>p. if p = overflow_pattern then Inl OverflowError else re_compile literal_lib p)\<rparr>"

definition overflow_rule :: rule_data where
  "overflow_rule =
     \<lparr> rd_name = Some ''Long run'', rd_type = Some ''regex'',
       rd_pattern = Some overflow_pattern, rd_action = Some ''block'', rd_priority = Some 1 \<rparr>"

definition overflow_config :: filter_config where
  "overflow_config = empty_config\<lparr>cfg_custom_rules := [overflow_rule]\<rparr>"

definition overflow_filter :: "string message_filter" where
  "overflow_filter = empty_filter\<lparr>custom_rules := [rule_of_data overflow_rule]\<rparr>"

definition overflow_content_config :: filter_config where
  "overflow_content_config = empty_config\<lparr>cfg_regex_patterns := [''spam'', overflow_pattern]\<rparr>"

text \<open>
  The dictionary of \<open>hello\<close> with the sender \<open>None\<close>, and a filter whose only custom
  rule is of kind sender.
\<close>

definition anonymous_hello :: dict_message where
  "anonymous_hello = (dict_of hello)\<lparr>d_from := None\<rparr>"

definition sender_filter :: "string message_filter" where
  "sender_filter = empty_filter\<lparr>custom_rules := [rule_of_data bad_sender_rule]\<rparr>"

text \<open>The packet of \<open>hello\<close> with the byte FF, which is not UTF-8, inside its payload.\<close>

definition garbled_payload :: "char list" where
  "garbled_payload = [CHR 0x68, CHR 0xFF, CHR 0x69]"

definition garbled_packet :: packet where
  "garbled_packet =
     \<lparr> pkt_decoded =
         Some \<lparr> portnum = Some ''TEXT_MESSAGE_APP'', payload = Some (Bytes garbled_payload) \<rparr>,
       pkt_id = Some 1, fromId = Some ''N1'', toId = Some ''broadcast'',
       pkt_channel = Some 0 \<rparr>"

section \<open>Properties\<close>

subsection \<open>A library that raises only what the filter catches\<close>

lemma lib_ok_literal_lib: "lib_ok literal_lib"
  by (simp add: lib_ok_def literal_lib_def dec_int_def)

lemma evaluate_rule_total:
  "lib_ok lib \<Longrightarrow> \<exists>b. evaluate_rule lib r m = Inr b"
  unfolding lib_ok_def evaluate_rule_def
  by (cases "re_compile lib (pattern r)"; cases "py_int lib (pattern r)") auto

lemma check_custom_rules_total:
  "lib_ok lib \<Longrightarrow> \<exists>b. check_custom_rules lib rs m = Inr b"
proof (induction rs)
  case Nil
  show ?case by (rule exI [of _ True]) simp
next
  case (Cons r rs)
  from evaluate_rule_total [OF Cons.prems] obtain b where "evaluate_rule lib r m = Inr b"
    by blast
  moreover from Cons obtain b' where "check_custom_rules lib rs m = Inr b'"
    by blast
  ultimately show ?case by auto
qed

lemmas count_defs = count_checked_def count_allowed_def count_blocked_def
  count_by_sender_def count_by_channel_def count_by_content_def

lemmas eval_string = lower_def lower_char_def sublist_Cons_right

subsection \<open>Counters of the filter\<close>

text \<open>
  On a message whose sender is a string the methods on the dictionary are the
  methods on the message.
\<close>

lemma evaluate_rule_dict_of:
  "evaluate_rule_dict lib r (dict_of m) = evaluate_rule lib r m"
  by (simp add: evaluate_rule_dict_def evaluate_rule_def dict_of_def split: sum.splits)

lemma check_custom_rules_dict_of:
  "check_custom_rules_dict lib rs (dict_of m) = check_custom_rules lib rs m"
  by (induction rs) (simp_all add: evaluate_rule_dict_of split: sum.splits)

lemma dict_of_fields:
  "d_from (dict_of m) = Some (from_node m)" "d_text (dict_of m) = msg_text m"
  "d_channel (dict_of m) = channel m"
  by (simp_all add: dict_of_def)

lemma should_forward_dict_of:
  "should_forward_dict lib f (dict_of m) = should_forward lib f m"
  by (simp add: should_forward_dict_def should_forward_def check_custom_rules_dict_of
      sender_in_def dict_of_fields Let_def)

lemma overflow_init: "filter_init overflow_lib overflow_config = Inr overflow_filter"
  by (simp add: filter_init_def overflow_config_def empty_config_def overflow_filter_def
      empty_filter_def load_custom_rules_def sort_by_priority_def)

lemma overflow_call:
  "should_forward overflow_lib overflow_filter hello =
     (Inl OverflowError, overflow_filter\<lparr>stats := zero_stats\<lparr>total_checked := 1\<rparr>\<rparr>)"
  by (simp add: should_forward_def Let_def count_defs check_content_def overflow_filter_def
      empty_filter_def hello_def zero_stats_def evaluate_rule_def rule_of_data_def
      overflow_rule_def overflow_lib_def)

lemma anonymous_call:
  "should_forward_dict literal_lib sender_filter anonymous_hello =
     (Inl TypeError, sender_filter\<lparr>stats := zero_stats\<lparr>total_checked := 1\<rparr>\<rparr>)"
  by (simp add: should_forward_dict_def Let_def count_defs check_content_def sender_filter_def
      empty_filter_def anonymous_hello_def dict_of_def hello_def zero_stats_def
      evaluate_rule_dict_def rule_of_data_def bad_sender_rule_def sender_in_def)

lemma returning_call:
  "should_forward literal_lib empty_filter hello =
     (Inr True, empty_filter\<lparr>stats := zero_stats\<lparr>total_checked := 1, total_allowed := 1\<rparr>\<rparr>)"
  by (simp add: should_forward_def Let_def count_defs check_content_def empty_filter_def
      hello_def zero_stats_def)

lemma disabled_call:
  "should_forward literal_lib disabled_filter hello = (Inr True, disabled_filter)"
  by (simp add: should_forward_def disabled_filter_def empty_filter_def)

lemma filter_facts:
  "enabled empty_filter" "stats empty_filter = zero_stats"
  "\<not> enabled disabled_filter"
  "enabled overflow_filter" "stats overflow_filter = zero_stats"
  "enabled sender_filter" "stats sender_filter = zero_stats"
  by (simp_all add: empty_filter_def disabled_filter_def overflow_filter_def sender_filter_def)

lemma check_content_stats:
  "check_content lib (f\<lparr>stats := st\<rparr>) txt = check_content lib f txt"
  by (simp add: check_content_def)

text \<open>
  C10, as amended. A call of \<open>should_forward\<close> that returns keeps
  \<open>total_checked = total_allowed + total_blocked\<close>: with filtering enabled it adds
  exactly one to \<open>total_checked\<close> and exactly one to exactly one of \<open>total_allowed\<close>
  and \<open>total_blocked\<close>, with filtering disabled it returns True and leaves every
  counter as it was. There is no condition on the library, and the sender may be
  \<open>None\<close>.
\<close>

theorem should_forward_counters:
  assumes "fst (should_forward_dict lib f m) = Inr b"
  shows "(enabled f \<longrightarrow>
            total_checked (stats (snd (should_forward_dict lib f m))) =
              total_checked (stats f) + 1 \<and>
            (total_allowed (stats (snd (should_forward_dict lib f m))) =
               total_allowed (stats f) + 1 \<and>
             total_blocked (stats (snd (should_forward_dict lib f m))) =
               total_blocked (stats f)
             \<or>
             total_allowed (stats (snd (should_forward_dict lib f m))) =
               total_allowed (stats f) \<and>
             total_blocked (stats (snd (should_forward_dict lib f m))) =
               total_blocked (stats f) + 1))
       \<and> (\<not> enabled f \<longrightarrow> should_forward_dict lib f m = (Inr True, f))
       \<and> (total_checked (stats f) = total_allowed (stats f) + total_blocked (stats f) \<longrightarrow>
            total_checked (stats (snd (should_forward_dict lib f m))) =
              total_allowed (stats (snd (should_forward_dict lib f m))) +
              total_blocked (stats (snd (should_forward_dict lib f m))))"
proof (cases "check_custom_rules_dict lib (custom_rules f) m")
  case (Inl e)
  with assms show ?thesis
    by (simp add: should_forward_dict_def Let_def count_defs check_content_stats
        split: if_splits)
next
  case (Inr ok)
  then show ?thesis
    by (simp add: should_forward_dict_def Let_def count_defs check_content_stats)
qed

theorem should_forward_counters_witness:
  "enabled empty_filter \<and>
   total_checked (stats empty_filter) =
     total_allowed (stats empty_filter) + total_blocked (stats empty_filter) \<and>
   fst (should_forward_dict literal_lib empty_filter (dict_of hello)) = Inr True \<and>
   total_checked (stats (snd (should_forward_dict literal_lib empty_filter (dict_of hello)))) = 1 \<and>
   total_allowed (stats (snd (should_forward_dict literal_lib empty_filter (dict_of hello)))) = 1 \<and>
   total_blocked (stats (snd (should_forward_dict literal_lib empty_filter (dict_of hello)))) = 0 \<and>
   \<not> enabled disabled_filter \<and>
   fst (should_forward_dict literal_lib disabled_filter (dict_of hello)) = Inr True \<and>
   should_forward_dict literal_lib disabled_filter (dict_of hello) = (Inr True, disabled_filter)"
proof -
  have returns: "fst (should_forward_dict literal_lib empty_filter (dict_of hello)) = Inr True"
    "fst (should_forward_dict literal_lib disabled_filter (dict_of hello)) = Inr True"
    by (simp_all add: should_forward_dict_of returning_call disabled_call)
  from should_forward_counters [OF returns(1)] should_forward_counters [OF returns(2)]
  show ?thesis
    by (simp add: should_forward_dict_of returning_call disabled_call filter_facts
        zero_stats_def)
qed

text \<open>
  A call that raises was made with filtering enabled and has added one to
  \<open>total_checked\<close> and nothing to any other counter.
\<close>

lemma should_forward_dict_raising:
  assumes "fst (should_forward_dict lib f m) = Inl e"
  shows "enabled f \<and> snd (should_forward_dict lib f m) = count_checked f"
  using assms
  by (auto simp: should_forward_dict_def Let_def split: if_splits sum.splits)

text \<open>
  The claim as it is worded fails for the calls that raise. The filter built from a
  configuration with one custom rule of kind regex whose pattern is
  \<open>a{4294967296}\<close>, with \<open>re.compile\<close> raising \<open>OverflowError\<close> for it as CPython
  does: the call raises after \<open>total_checked\<close> became 1, and \<open>total_allowed\<close> and
  \<open>total_blocked\<close> are still 0. The same with a rule of kind sender and a message
  whose sender is \<open>None\<close>, where \<open>rule.pattern in from_node\<close> raises \<open>TypeError\<close>.
\<close>

theorem should_forward_counters_counterexample:
  "filter_init overflow_lib overflow_config = Inr overflow_filter \<and>
   enabled overflow_filter \<and>
   total_checked (stats overflow_filter) =
     total_allowed (stats overflow_filter) + total_blocked (stats overflow_filter) \<and>
   fst (should_forward overflow_lib overflow_filter hello) = Inl OverflowError \<and>
   total_checked (stats (snd (should_forward overflow_lib overflow_filter hello))) = 1 \<and>
   total_allowed (stats (snd (should_forward overflow_lib overflow_filter hello))) = 0 \<and>
   total_blocked (stats (snd (should_forward overflow_lib overflow_filter hello))) = 0 \<and>
   enabled sender_filter \<and>
   total_checked (stats sender_filter) =
     total_allowed (stats sender_filter) + total_blocked (stats sender_filter) \<and>
   fst (should_forward_dict literal_lib sender_filter anonymous_hello) = Inl TypeError \<and>
   total_checked (stats (snd (should_forward_dict literal_lib sender_filter anonymous_hello))) = 1 \<and>
   total_allowed (stats (snd (should_forward_dict literal_lib sender_filter anonymous_hello))) = 0 \<and>
   total_blocked (stats (snd (should_forward_dict literal_lib sender_filter anonymous_hello))) = 0"
  by (simp add: overflow_init overflow_call anonymous_call filter_facts zero_stats_def)

subsection \<open>Order of the checks\<close>

lemmas admission_defs = admission_steps_def spec_admit_def spec_content_match_def
  count_verdict_def

text \<open>
  C2, as amended. With filtering enabled, \<open>should_forward\<close> decides by the first
  decisive step of the cascade: sender allow-list, sender deny-list, channel
  allow-list, channel deny-list, content match on a non-empty text, custom rules,
  and admission by default; the counters that change are those of the deciding step.
  An empty text passes the content step whatever the keywords and patterns are. With
  filtering disabled no check is made and the message is admitted.
\<close>

theorem should_forward_order:
  assumes "lib_ok lib"
  shows "(enabled f \<longrightarrow>
            (let v = admission_steps lib f m
                       (msg_text m \<noteq> [] \<and> spec_content_match lib f (msg_text m))
             in should_forward lib f m =
                  (Inr (v = Admit), f\<lparr>stats := count_verdict v (stats f)\<rparr>)))
       \<and> (\<not> enabled f \<longrightarrow> should_forward lib f m = (Inr True, f))"
proof -
  obtain b where b: "check_custom_rules lib (custom_rules f) m = Inr b"
    using check_custom_rules_total [OF assms] by blast
  show ?thesis
    by (simp add: should_forward_def Let_def count_defs b admission_defs check_content_def)
qed

text \<open>
  A sender on the deny-list, on a blocked channel, with a blocked keyword in the
  text: the sender step decides, and only its counter moves.
\<close>

theorem should_forward_order_witness:
  "lib_ok literal_lib \<and> enabled layered_filter \<and>
   should_forward literal_lib layered_filter spam_from_N2 =
     (Inr False,
      layered_filter\<lparr>stats := zero_stats\<lparr>total_checked := 1, total_blocked := 1,
                                           blocked_by_sender := 1\<rparr>\<rparr>) \<and>
   \<not> enabled disabled_filter \<and>
   should_forward literal_lib disabled_filter hello = (Inr True, disabled_filter)"
  using should_forward_order [OF lib_ok_literal_lib, of layered_filter spam_from_N2]
    should_forward_order [OF lib_ok_literal_lib, of disabled_filter hello]
  by (simp add: lib_ok_literal_lib layered_filter_def empty_filter_def disabled_filter_def
      spam_from_N2_def admission_defs zero_stats_def Let_def)

text \<open>
  The claim as it is worded fails twice: an empty text is admitted although the
  empty keyword is a substring of it, and a disabled filter admits a sender of its
  deny-list.
\<close>

theorem should_forward_order_counterexample:
  "fst (should_forward literal_lib empty_keyword_filter empty_text) = Inr True \<and>
   spec_admit literal_lib empty_keyword_filter empty_text = Block_content_match \<and>
   fst (should_forward literal_lib disabled_filter hello) = Inr True \<and>
   spec_admit literal_lib disabled_filter hello = Block_in_denylist"
  by (simp add: should_forward_def Let_def count_defs admission_defs check_content_def
      empty_keyword_filter_def empty_text_def disabled_filter_def empty_filter_def hello_def
      eval_string)

subsection \<open>Custom rules\<close>

lemma sublist_lower: "sublist (lower p) (lower (pre @ p @ post))"
  by (simp add: lower_def)

lemma load_sorted:
  "sorted_wrt (\<lambda>r r'. priority r' \<le> priority r) (load_custom_rules ds)"
proof -
  have "sorted (map (\<lambda>r. - priority r) (load_custom_rules ds))"
    by (simp add: load_custom_rules_def sort_by_priority_def)
  then show ?thesis by (simp add: sorted_map)
qed

lemma add_rule_sorted:
  "sorted_wrt (\<lambda>r r'. priority r' \<le> priority r) (custom_rules (add_rule r f))"
proof -
  have "sorted (map (\<lambda>r. - priority r) (custom_rules (add_rule r f)))"
    by (simp add: add_rule_def sort_by_priority_def)
  then show ?thesis by (simp add: sorted_map)
qed

lemma check_custom_rules_find:
  assumes "lib_ok lib"
  shows "\<forall>r \<in> set rs. action r = ''allow'' \<or> action r = ''block'' \<Longrightarrow>
         check_custom_rules lib rs m =
           Inr (case find (\<lambda>r. evaluate_rule lib r m = Inr True) rs of
                  None \<Rightarrow> True
                | Some r \<Rightarrow> action r = ''allow'')"
proof (induction rs)
  case Nil
  show ?case by simp
next
  case (Cons r rs)
  obtain b where b: "evaluate_rule lib r m = Inr b"
    using evaluate_rule_total [OF assms] by blast
  from Cons.prems have "action r = ''allow'' \<or> action r = ''block''" by simp
  with Cons b show ?case by auto
qed

lemma emergency_rules:
  "load_custom_rules [bad_sender_rule, emergency_rule] =
     [rule_of_data emergency_rule, rule_of_data bad_sender_rule]"
  by (simp add: load_custom_rules_def sort_by_priority_def rule_of_data_def
      emergency_rule_def bad_sender_rule_def)

lemma emergency_matches:
  "evaluate_rule lib (rule_of_data emergency_rule) (emergency_message pre post) = Inr True"
  using sublist_lower [of "''EMERGENCY''" pre post]
  by (simp add: evaluate_rule_def rule_of_data_def emergency_rule_def emergency_message_def)

lemma emergency_admitted:
  "(case filter_init lib emergency_config of
      Inl e \<Rightarrow> False
    | Inr f \<Rightarrow> fst (should_forward lib f (emergency_message pre post)) = Inr True)"
  using emergency_matches [of lib pre post]
  apply (simp add: filter_init_def emergency_config_def empty_config_def emergency_rules
      should_forward_def Let_def count_defs check_content_def)
  apply (simp add: rule_of_data_def emergency_rule_def)
  done

text \<open>
  C3. The rules loaded from the configuration are in descending order of priority
  (and are the rules of the configuration, none lost), and so are the rules after
  \<open>add_rule\<close>. For rules whose action is
  \<open>allow\<close> or \<open>block\<close>, as the rule type documents, the first rule in that order
  whose pattern matches decides: the result is that of its action whatever rules
  follow, and a message no rule matches is allowed. In particular, with the allow
  rule of priority 100 for the keyword EMERGENCY and the block rule of priority 0
  for the sender bad123456, a message from bad123456 whose text contains EMERGENCY
  is admitted by \<open>should_forward\<close>.
\<close>

theorem custom_rules_priority_first_match:
  assumes "lib_ok lib"
      and "\<forall>d \<in> set ds. action (rule_of_data d) = ''allow'' \<or> action (rule_of_data d) = ''block''"
  shows "sorted_wrt (\<lambda>r r'. priority r' \<le> priority r) (load_custom_rules ds) \<and>
         sorted_wrt (\<lambda>r r'. priority r' \<le> priority r) (custom_rules (add_rule r0 f0)) \<and>
         mset (load_custom_rules ds) = mset (map rule_of_data ds) \<and>
         check_custom_rules lib (load_custom_rules ds) m =
           Inr (case find (\<lambda>r. evaluate_rule lib r m = Inr True) (load_custom_rules ds) of
                  None \<Rightarrow> True
                | Some r \<Rightarrow> action r = ''allow'') \<and>
         (case filter_init lib emergency_config of
            Inl e \<Rightarrow> False
          | Inr f \<Rightarrow> fst (should_forward lib f (emergency_message pre post)) = Inr True)"
proof -
  have m: "mset (load_custom_rules ds) = mset (map rule_of_data ds)"
    by (simp add: load_custom_rules_def sort_by_priority_def)
  have "set (load_custom_rules ds) = rule_of_data ` set ds"
    by (simp add: load_custom_rules_def sort_by_priority_def)
  with assms(2) have "\<forall>r \<in> set (load_custom_rules ds). action r = ''allow'' \<or> action r = ''block''"
    by simp
  from check_custom_rules_find [OF assms(1) this] load_sorted add_rule_sorted m
    emergency_admitted
  show ?thesis by blast
qed

text \<open>
  The example evaluated: the rules are reordered by priority, the message is
  allowed, and with the block rule alone it is blocked.
\<close>

theorem custom_rules_priority_first_match_witness:
  "lib_ok literal_lib \<and>
   action (rule_of_data bad_sender_rule) = ''block'' \<and>
   action (rule_of_data emergency_rule) = ''allow'' \<and>
   load_custom_rules [bad_sender_rule, emergency_rule] =
     [rule_of_data emergency_rule, rule_of_data bad_sender_rule] \<and>
   check_custom_rules literal_lib (load_custom_rules [bad_sender_rule, emergency_rule])
     (emergency_message [] '': Need help!'') = Inr True \<and>
   check_custom_rules literal_lib (load_custom_rules [bad_sender_rule])
     (emergency_message [] '': Need help!'') = Inr False"
  using custom_rules_priority_first_match [OF lib_ok_literal_lib,
      of "[bad_sender_rule, emergency_rule]" _ _ "emergency_message [] '': Need help!''"
        "[]" "[]"]
  by (simp add: lib_ok_literal_lib emergency_rules load_custom_rules_def sort_by_priority_def
      rule_of_data_def emergency_rule_def bad_sender_rule_def emergency_message_def
      evaluate_rule_def eval_string)

subsection \<open>The tracker\<close>

lemma Seen_iff: "Seen t i \<longleftrightarrow> i \<in> set (map entry_id (entries t))"
  by (auto simp: Seen_def)

lemma ids_MarkForwarded:
  "map entry_id (entries (MarkForwarded t i)) = map entry_id (entries t)"
  by (simp add: MarkForwarded_def)

lemma Seen_MarkForwarded: "Seen (MarkForwarded t i) j = Seen t j"
  by (simp only: Seen_iff ids_MarkForwarded)

lemma forwarded_after_mark:
  assumes "e \<in> set (map (\<lambda>e. if entry_id e = i
                         then e\<lparr>forwarded := True, forwardCount := forwardCount e + 1\<rparr>
                         else e) es)"
      and "entry_id e = i"
  shows "forwarded e"
proof -
  from assms(1) obtain x where
    x: "e = (if entry_id x = i
             then x\<lparr>forwarded := True, forwardCount := forwardCount x + 1\<rparr> else x)"
    unfolding set_map by (rule imageE)
  show ?thesis
  proof (cases "entry_id x = i")
    case True
    with x show ?thesis by simp
  next
    case False
    with x assms(2) show ?thesis by simp
  qed
qed

lemma forwarded_flag_MarkForwarded:
  assumes "Seen t i"
  shows "forwarded_flag (MarkForwarded t i) i"
proof -
  have "Seen (MarkForwarded t i) i"
    using assms by (simp only: Seen_MarkForwarded)
  moreover have ent: "entries (MarkForwarded t i) =
      map (\<lambda>e. if entry_id e = i
                then e\<lparr>forwarded := True, forwardCount := forwardCount e + 1\<rparr>
                else e) (entries t)"
    using assms by (simp add: MarkForwarded_def)
  have "\<forall>e \<in> set (entries (MarkForwarded t i)). entry_id e = i \<longrightarrow> forwarded e"
    unfolding ent using forwarded_after_mark [of _ i "entries t"] by blast
  ultimately show ?thesis by (simp add: forwarded_flag_def)
qed

lemma forwarded_flag_Seen: "forwarded_flag t i \<Longrightarrow> Seen t i"
  by (simp add: forwarded_flag_def)

lemma arg_min_list_snoc:
  "xs \<noteq> [] \<Longrightarrow> \<forall>x \<in> set xs. f x \<le> f e \<Longrightarrow>
   arg_min_list f (xs @ [e]) = arg_min_list f xs"
proof (induction xs rule: induct_list012)
  case 1
  then show ?case by simp
next
  case (2 x)
  then show ?case by simp
next
  case (3 x y zs)
  then show ?case by (simp add: Let_def)
qed

lemma remove_oldest_snoc:
  assumes "xs \<noteq> []" and "\<forall>x \<in> set xs. firstSeenAt x \<le> firstSeenAt e"
  shows "remove_oldest (xs @ [e]) = remove_oldest xs @ [e]"
proof -
  have "arg_min_list firstSeenAt xs \<in> set xs"
    using assms(1) by (rule arg_min_list_in)
  then show ?thesis
    using assms by (simp add: remove_oldest_def arg_min_list_snoc remove1_append)
qed

lemma length_remove_oldest: "xs \<noteq> [] \<Longrightarrow> length (remove_oldest xs) = length xs - 1"
  by (simp add: remove_oldest_def length_remove1 arg_min_list_in)

lemma set_remove_oldest: "set (remove_oldest xs) \<subseteq> set xs"
  using set_remove1_subset [of "arg_min_list firstSeenAt xs" xs]
  by (simp add: remove_oldest_def)

lemma evict_snoc:
  "k \<le> length xs \<Longrightarrow> \<forall>x \<in> set xs. firstSeenAt x \<le> firstSeenAt e \<Longrightarrow>
   evict k (xs @ [e]) = evict k xs @ [e]"
proof (induction k arbitrary: xs)
  case 0
  then show ?case by simp
next
  case (Suc k)
  then have ne: "xs \<noteq> []" by auto
  have sub: "\<forall>x \<in> set (remove_oldest xs). firstSeenAt x \<le> firstSeenAt e"
    using Suc.prems(2) set_remove_oldest [of xs] by blast
  have "k \<le> length (remove_oldest xs)"
    using Suc.prems(1) ne by (simp add: length_remove_oldest)
  from Suc.IH [OF this sub] show ?case
    using ne Suc.prems(2) by (simp add: remove_oldest_snoc)
qed

lemma Seen_Record:
  assumes "0 < maxMessages t" and "0 \<le> maxAge t"
      and "\<forall>e \<in> set (entries t). firstSeenAt e \<le> now"
  shows "Seen (Record t i frm to txt ch now) i"
proof (cases "Seen t i")
  case True
  then show ?thesis by (simp add: Record_def)
next
  case False
  define e where "e = \<lparr> entry_id = i, entry_from = frm, entry_to = to, entry_text = txt,
                  entry_channel = ch, firstSeenAt = now, forwarded = False,
                  forwardCount = 0 \<rparr>"
  define xs where "xs = purge_old now (maxAge t) (entries t)"
  have p: "purge_old now (maxAge t) (entries t @ [e]) = xs @ [e]"
    using assms(2) by (simp add: purge_old_def xs_def e_def)
  have le: "\<forall>x \<in> set xs. firstSeenAt x \<le> firstSeenAt e"
    using assms(3) by (simp add: xs_def purge_old_def e_def)
  have k: "length (xs @ [e]) - maxMessages t \<le> length xs"
    using assms(1) by simp
  have "entries (Record t i frm to txt ch now) =
          evict (length (xs @ [e]) - maxMessages t) xs @ [e]"
    using False p evict_snoc [OF k le] by (simp add: Record_def Let_def e_def [symmetric])
  then show ?thesis by (simp add: Seen_def e_def)
qed

subsection \<open>The fan-out loop\<close>

lemma calls_forward_one:
  "calls (forward_one send_ok mid txt ch k s) =
     calls s @ (if send_ok k txt ch then [SendText k txt ch, TrackerMarkForwarded mid]
                else [SendText k txt ch])"
  by (simp add: forward_one_def send_succeeded_def send_failed_def Let_def)

lemma tracker_forward_one:
  "tracker (forward_one send_ok mid txt ch k s) =
     (if send_ok k txt ch then MarkForwarded (tracker s) mid else tracker s)"
  by (simp add: forward_one_def send_succeeded_def send_failed_def Let_def)

lemma radio_stats_forward_one:
  "radio_stats_of (forward_one send_ok mid txt ch k s) =
     (radio_stats_of s)(k :=
        (if send_ok k txt ch
         then (radio_stats_of s k)\<lparr>sent := sent (radio_stats_of s k) + 1\<rparr>
         else (radio_stats_of s k)\<lparr>errors := errors (radio_stats_of s k) + 1\<rparr>))"
  by (simp add: forward_one_def send_succeeded_def send_failed_def Let_def)

lemma calls_forward_loop:
  "calls (forward_loop send_ok src mid txt ch ks s) =
     calls s @ loop_calls send_ok src mid txt ch ks"
  by (induction ks arbitrary: s) (simp_all add: loop_calls_def calls_forward_one)

lemma send_targets_append: "send_targets (xs @ ys) = send_targets xs @ send_targets ys"
  by (induction xs rule: send_targets.induct) simp_all

lemma mark_calls_append: "mark_calls (xs @ ys) = mark_calls xs @ mark_calls ys"
  by (induction xs rule: mark_calls.induct) simp_all

lemma send_targets_loop_calls:
  "send_targets (loop_calls send_ok src mid txt ch ks) = filter (\<lambda>k. k \<noteq> src) ks"
  by (induction ks) (simp_all add: loop_calls_def send_targets_append)

lemma is_send_loop_calls:
  "filter is_send (loop_calls send_ok src mid txt ch ks) =
     map (\<lambda>k. SendText k txt ch) (filter (\<lambda>k. k \<noteq> src) ks)"
  by (induction ks) (simp_all add: loop_calls_def)

lemma mark_calls_loop_calls:
  "mark_calls (loop_calls send_ok src mid txt ch ks) =
     map (\<lambda>k. mid) (filter (\<lambda>k. k \<noteq> src \<and> send_ok k txt ch) ks)"
  by (induction ks) (simp_all add: loop_calls_def mark_calls_append)

lemma Seen_forward_loop:
  "Seen (tracker (forward_loop send_ok src mid txt ch ks s)) i = Seen (tracker s) i"
  by (induction ks arbitrary: s) (simp_all add: tracker_forward_one Seen_MarkForwarded)

lemma forwarded_flag_kept:
  "forwarded_flag t i \<Longrightarrow> forwarded_flag (MarkForwarded t i) i"
  by (rule forwarded_flag_MarkForwarded) (rule forwarded_flag_Seen)

lemma forwarded_flag_forward_loop_kept:
  "forwarded_flag (tracker s) mid \<Longrightarrow>
   forwarded_flag (tracker (forward_loop send_ok src mid txt ch ks s)) mid"
  by (induction ks arbitrary: s) (simp_all add: tracker_forward_one forwarded_flag_kept)

lemma forwarded_flag_forward_loop:
  "Seen (tracker s) mid \<Longrightarrow> \<exists>k \<in> set ks. k \<noteq> src \<and> send_ok k txt ch \<Longrightarrow>
   forwarded_flag (tracker (forward_loop send_ok src mid txt ch ks s)) mid"
proof (induction ks arbitrary: s)
  case Nil
  then show ?case by simp
next
  case (Cons k ks)
  show ?case
  proof (cases "k \<noteq> src \<and> send_ok k txt ch")
    case True
    then have "forwarded_flag (tracker (forward_one send_ok mid txt ch k s)) mid"
      using Cons.prems(1) by (simp add: tracker_forward_one forwarded_flag_MarkForwarded)
    then show ?thesis
      using True by (simp add: forwarded_flag_forward_loop_kept)
  next
    case False
    with Cons.prems(2) have ex: "\<exists>k \<in> set ks. k \<noteq> src \<and> send_ok k txt ch" by auto
    show ?thesis
    proof (cases "k = src")
      case True
      then show ?thesis using Cons.IH [OF Cons.prems(1) ex] by simp
    next
      case ne: False
      with False have nok: "\<not> send_ok k txt ch" by simp
      have "Seen (tracker (forward_one send_ok mid txt ch k s)) mid"
        using Cons.prems(1) nok by (simp add: tracker_forward_one)
      from Cons.IH [OF this ex] show ?thesis using ne by simp
    qed
  qed
qed

lemma radio_stats_forward_loop:
  "distinct ks \<Longrightarrow>
   radio_stats_of (forward_loop send_ok src mid txt ch ks s) k =
     (if k \<in> set ks \<and> k \<noteq> src
      then (if send_ok k txt ch
            then (radio_stats_of s k)\<lparr>sent := sent (radio_stats_of s k) + 1\<rparr>
            else (radio_stats_of s k)\<lparr>errors := errors (radio_stats_of s k) + 1\<rparr>)
      else radio_stats_of s k)"
proof (induction ks arbitrary: s k)
  case Nil
  show ?case by simp
next
  case (Cons j ks)
  then have d: "distinct ks" and nj: "j \<notin> set ks" by simp_all
  show ?case
    using nj by (simp add: Cons.IH [OF d] radio_stats_forward_one)
qed

subsection \<open>One routing pass\<close>

lemma should_forward_keeps_config:
  "snd (should_forward lib f m) = f\<lparr>stats := stats (snd (should_forward lib f m))\<rparr>"
  by (cases "check_custom_rules lib (custom_rules f) m")
     (simp_all add: should_forward_def Let_def count_defs)

lemma should_forward_verdict_stats:
  "fst (should_forward lib (f\<lparr>stats := st\<rparr>) m) = fst (should_forward lib f m)"
  by (cases "check_custom_rules lib (custom_rules f) m")
     (simp_all add: should_forward_def Let_def count_defs check_content_def)

lemma handle_message_admitted:
  assumes "text_packet pkt m" and "admitted lib s m"
  shows "handle_message lib send_ok now s pkt src =
           record_and_forward send_ok now m src
             (s\<lparr>message_filter :=
                  map_option (\<lambda>f. snd (should_forward lib f m)) (message_filter s)\<rparr>)"
proof -
  from assms(1) obtain d where d: "pkt_decoded pkt = Some d"
      "portnum d = Some ''TEXT_MESSAGE_APP''" "m = message_of_packet pkt d"
    by (auto simp: text_packet_def split: option.splits)
  from assms(2) have ns: "\<not> Seen (tracker s) (msg_id m)"
    by (simp add: admitted_def)
  show ?thesis
  proof (cases "message_filter s")
    case None
    have "s\<lparr>message_filter := message_filter s\<rparr> = s" by simp
    with None have eq: "s\<lparr>message_filter := None\<rparr> = s" by simp
    show ?thesis
      using d ns None by (simp add: handle_message_def Let_def eq)
  next
    case (Some f)
    with assms(2) have "fst (should_forward lib f m) = Inr True"
      by (simp add: admitted_def)
    then obtain f' where "should_forward lib f m = (Inr True, f')"
      by (cases "should_forward lib f m") simp
    then show ?thesis
      using d ns Some by (simp add: handle_message_def Let_def)
  qed
qed

lemma handle_message_rejected:
  assumes "text_packet pkt m" and "rejected lib s m"
  shows "handle_message lib send_ok now s pkt src =
           s\<lparr> message_filter :=
                 map_option (\<lambda>f. snd (should_forward lib f m)) (message_filter s),
               metrics_of := map_option increment_filtered (metrics_of s) \<rparr>"
proof -
  from assms(1) obtain d where d: "pkt_decoded pkt = Some d"
      "portnum d = Some ''TEXT_MESSAGE_APP''" "m = message_of_packet pkt d"
    by (auto simp: text_packet_def split: option.splits)
  from assms(2) have ns: "\<not> Seen (tracker s) (msg_id m)"
    by (simp add: rejected_def)
  from assms(2) obtain f where f: "message_filter s = Some f"
      "fst (should_forward lib f m) = Inr False"
    by (auto simp: rejected_def split: option.splits)
  then obtain f' where "should_forward lib f m = (Inr False, f')"
    by (cases "should_forward lib f m") simp
  then show ?thesis
    using d ns f by (simp add: handle_message_def Let_def)
qed

lemma calls_record_and_forward:
  "calls (record_and_forward send_ok now m src s) =
     calls s @ TrackerAdd (msg_id m) #
       loop_calls send_ok src (msg_id m) (msg_text m) (channel m) [0..<n_interfaces s]"
  by (simp add: record_and_forward_def Let_def calls_forward_loop)

lemma tracker_record_and_forward:
  assumes "Seen (Record (tracker s) (msg_id m) (from_node m) (to_node m) (msg_text m)
                   (channel m) now) (msg_id m)"
      and "\<exists>k < n_interfaces s. k \<noteq> src \<and> send_ok k (msg_text m) (channel m)"
  shows "forwarded_flag (tracker (record_and_forward send_ok now m src s)) (msg_id m)"
  unfolding record_and_forward_def Let_def
  by (rule forwarded_flag_forward_loop) (use assms in auto)

lemma radio_stats_record_and_forward:
  assumes "k \<noteq> src"
  shows "radio_stats_of (record_and_forward send_ok now m src s) k =
     (if k < n_interfaces s
      then (if send_ok k (msg_text m) (channel m)
            then (radio_stats_of s k)\<lparr>sent := sent (radio_stats_of s k) + 1\<rparr>
            else (radio_stats_of s k)\<lparr>errors := errors (radio_stats_of s k) + 1\<rparr>)
      else radio_stats_of s k)"
  using assms by (simp add: record_and_forward_def Let_def radio_stats_forward_loop)

lemma new_calls_append: "calls s' = calls s @ xs \<Longrightarrow> new_calls s s' = xs"
  by (simp add: new_calls_def)

subsection \<open>Evaluation of concrete passes\<close>

lemma upt3: "[0..<3] = [0, 1, 2]"
  by (simp add: upt_rec)

lemma upt4: "[0..<4] = [0, 1, 2, 3]"
  by (simp add: upt_rec)

lemmas router_defs = handle_message_def message_of_packet_def payload_text_def
  record_and_forward_def forward_one_def send_succeeded_def send_failed_def
  Record_def MarkForwarded_def Seen_def purge_old_def Let_def

lemmas instance_defs = bridge_of_def empty_tracker_def hello_packet_def hello_def
  all_ok_def fails_at_def none_ok_def seq1_def empty_filter_def zero_stats_def zero_radio_stats_def
  n2_filter_def n2_message_def n2_packet_def

lemmas filter_eval = should_forward_def check_content_def count_defs

lemma text_packet_hello: "text_packet hello_packet hello"
  by (simp add: text_packet_def message_of_packet_def payload_text_def instance_defs)

lemma text_packet_n2: "text_packet n2_packet n2_message"
  by (simp add: text_packet_def message_of_packet_def payload_text_def instance_defs)

lemma handle_message_calls_unchanged:
  assumes "\<And>m. text_packet pkt m \<Longrightarrow> \<not> admitted lib s m"
  shows "calls (handle_message lib send_ok now s pkt src) = calls s"
proof (cases "pkt_decoded pkt")
  case None
  then show ?thesis by (simp add: handle_message_def)
next
  case (Some d)
  show ?thesis
  proof (cases "portnum d = Some ''TEXT_MESSAGE_APP''")
    case False
    with Some show ?thesis by (simp add: handle_message_def)
  next
    case True
    with Some have "text_packet pkt (message_of_packet pkt d)"
      by (simp add: text_packet_def)
    then have na: "\<not> admitted lib s (message_of_packet pkt d)"
      by (rule assms)
    show ?thesis
    proof (cases "message_filter s")
      case None
      with na Some show ?thesis
        by (simp add: handle_message_def Let_def admitted_def)
    next
      case f: (Some f)
      obtain r f' where r: "should_forward lib f (message_of_packet pkt d) = (r, f')"
        by (cases "should_forward lib f (message_of_packet pkt d)")
      with na Some f show ?thesis
        by (cases r) (auto simp: handle_message_def Let_def admitted_def)
    qed
  qed
qed

lemma new_calls_admitted:
  assumes "text_packet pkt m" and "admitted lib s m"
  shows "new_calls s (handle_message lib send_ok now s pkt src) =
           TrackerAdd (msg_id m) #
             loop_calls send_ok src (msg_id m) (msg_text m) (channel m) [0..<n_interfaces s]"
  by (rule new_calls_append)
     (simp add: handle_message_admitted [OF assms] calls_record_and_forward)

subsection \<open>No send to the source\<close>

text \<open>
  C5. For every inbound packet arriving on the link at position \<open>src\<close>, no
  \<open>sendText\<close> call of the routing pass targets \<open>src\<close>: the positions the pass
  sends to are, in registration order, all the registered positions except the
  source, or none when the packet is not forwarded.
\<close>

theorem no_send_to_source:
  "src \<notin> set (send_targets (new_calls s (handle_message lib send_ok now s pkt src))) \<and>
   (send_targets (new_calls s (handle_message lib send_ok now s pkt src)) = [] \<or>
    send_targets (new_calls s (handle_message lib send_ok now s pkt src)) =
      filter (\<lambda>k. k \<noteq> src) [0..<n_interfaces s])"
proof (cases "\<exists>m. text_packet pkt m \<and> admitted lib s m")
  case True
  then obtain m where "text_packet pkt m" and "admitted lib s m" by blast
  from new_calls_admitted [OF this] show ?thesis
    by (simp add: send_targets_loop_calls)
next
  case False
  then have "calls (handle_message lib send_ok now s pkt src) = calls s"
    by (intro handle_message_calls_unchanged) blast
  then have "new_calls s (handle_message lib send_ok now s pkt src) = []"
    by (simp add: new_calls_def)
  then show ?thesis by simp
qed

theorem no_send_to_source_witness:
  "send_targets (new_calls (bridge_of 3 None)
     (handle_message literal_lib all_ok 0 (bridge_of 3 None) hello_packet 1)) = [0, 2] \<and>
   1 \<notin> set (send_targets (new_calls (bridge_of 3 None)
     (handle_message literal_lib all_ok 0 (bridge_of 3 None) hello_packet 1)))"
  using no_send_to_source [of 1 "bridge_of 3 None" literal_lib all_ok 0 hello_packet]
  by (simp add: router_defs instance_defs new_calls_def upt3)

subsection \<open>Duplicates\<close>

text \<open>
  C4. For a message whose identifier the tracker has already seen, the routing pass
  returns the router state as it was: no call is added to the log (no send on any
  interface, no tracker call) and the per-radio statistics, the filter counters, the
  metrics and the tracker are unchanged. So the re-delivery of an identifier that
  was forwarded, on another link, makes no further send.
\<close>

theorem duplicate_has_no_effect:
  assumes "text_packet pkt m" and "Seen (tracker s) (msg_id m)"
  shows "handle_message lib send_ok now s pkt src = s"
  using assms
  by (auto simp: text_packet_def handle_message_def Let_def split: option.splits)

lemma first_delivery_calls:
  "calls (handle_message literal_lib all_ok 0 (bridge_of 3 (Some empty_filter)) hello_packet 0) =
     [TrackerAdd 1, SendText 1 ''hi'' 0, TrackerMarkForwarded 1, SendText 2 ''hi'' 0,
      TrackerMarkForwarded 1]"
  by (simp add: router_defs instance_defs filter_eval upt3)

lemma first_delivery_seen:
  "Seen (tracker (handle_message literal_lib all_ok 0 (bridge_of 3 (Some empty_filter))
                    hello_packet 0)) (msg_id hello)"
  by (simp add: router_defs instance_defs filter_eval upt3)

text \<open>
  Three links; message 1 arrives on the first and is sent to the other two; its
  re-delivery on the second link leaves the state as it is.
\<close>

theorem duplicate_has_no_effect_witness:
  "text_packet hello_packet hello \<and>
   Seen (tracker (handle_message literal_lib all_ok 0 (bridge_of 3 (Some empty_filter))
                    hello_packet 0)) (msg_id hello) \<and>
   calls (handle_message literal_lib all_ok 0 (bridge_of 3 (Some empty_filter)) hello_packet 0) =
     [TrackerAdd 1, SendText 1 ''hi'' 0, TrackerMarkForwarded 1, SendText 2 ''hi'' 0,
      TrackerMarkForwarded 1] \<and>
   handle_message literal_lib all_ok 5
     (handle_message literal_lib all_ok 0 (bridge_of 3 (Some empty_filter)) hello_packet 0)
     hello_packet 1 =
   handle_message literal_lib all_ok 0 (bridge_of 3 (Some empty_filter)) hello_packet 0"
  using duplicate_has_no_effect [OF text_packet_hello first_delivery_seen,
      of literal_lib all_ok 5 1]
    text_packet_hello first_delivery_seen first_delivery_calls
  by blast

subsection \<open>Fan-out of an admitted message\<close>

text \<open>
  C6. For an admitted message every send of the fan-out is attempted whatever the
  outcome of the others: the \<open>sendText\<close> calls of the pass are exactly one to each
  registered position but the source, in registration order, with the text and the
  channel of the message. A send that raises is counted as an error of its target,
  a send that returns is counted as sent for its target. When at least one send
  succeeds the entry of the tracker for the message reports it forwarded (for a
  tracker of capacity at least one, a non-negative maximal age and a clock that
  does not run backwards, so that the entry just recorded is kept).
\<close>

theorem fan_out_failure_isolation:
  assumes "text_packet pkt m" and "admitted lib s m"
  shows "filter is_send (new_calls s (handle_message lib send_ok now s pkt src)) =
           map (\<lambda>k. SendText k (msg_text m) (channel m))
             (filter (\<lambda>k. k \<noteq> src) [0..<n_interfaces s]) \<and>
         (\<forall>k < n_interfaces s. k \<noteq> src \<longrightarrow>
            radio_stats_of (handle_message lib send_ok now s pkt src) k =
              (if send_ok k (msg_text m) (channel m)
               then (radio_stats_of s k)\<lparr>sent := sent (radio_stats_of s k) + 1\<rparr>
               else (radio_stats_of s k)\<lparr>errors := errors (radio_stats_of s k) + 1\<rparr>)) \<and>
         ((\<exists>k < n_interfaces s. k \<noteq> src \<and> send_ok k (msg_text m) (channel m)) \<and>
          0 < maxMessages (tracker s) \<and> 0 \<le> maxAge (tracker s) \<and>
          (\<forall>e \<in> set (entries (tracker s)). firstSeenAt e \<le> now) \<longrightarrow>
            forwarded_flag (tracker (handle_message lib send_ok now s pkt src)) (msg_id m))"
proof (intro conjI allI impI)
  show "filter is_send (new_calls s (handle_message lib send_ok now s pkt src)) =
           map (\<lambda>k. SendText k (msg_text m) (channel m))
             (filter (\<lambda>k. k \<noteq> src) [0..<n_interfaces s])"
    by (simp add: new_calls_admitted [OF assms] is_send_loop_calls)
next
  fix k
  assume "k < n_interfaces s" and "k \<noteq> src"
  then show "radio_stats_of (handle_message lib send_ok now s pkt src) k =
              (if send_ok k (msg_text m) (channel m)
               then (radio_stats_of s k)\<lparr>sent := sent (radio_stats_of s k) + 1\<rparr>
               else (radio_stats_of s k)\<lparr>errors := errors (radio_stats_of s k) + 1\<rparr>)"
    by (simp add: handle_message_admitted [OF assms] radio_stats_record_and_forward)
next
  assume a: "(\<exists>k < n_interfaces s. k \<noteq> src \<and> send_ok k (msg_text m) (channel m)) \<and>
          0 < maxMessages (tracker s) \<and> 0 \<le> maxAge (tracker s) \<and>
          (\<forall>e \<in> set (entries (tracker s)). firstSeenAt e \<le> now)"
  let ?s0 = "s\<lparr>message_filter :=
                  map_option (\<lambda>f. snd (should_forward lib f m)) (message_filter s)\<rparr>"
  have "Seen (Record (tracker ?s0) (msg_id m) (from_node m) (to_node m) (msg_text m)
                   (channel m) now) (msg_id m)"
    using a by (simp add: Seen_Record)
  moreover have "\<exists>k < n_interfaces ?s0. k \<noteq> src \<and> send_ok k (msg_text m) (channel m)"
    using a by simp
  ultimately have "forwarded_flag (tracker (record_and_forward send_ok now m src ?s0)) (msg_id m)"
    by (rule tracker_record_and_forward)
  then show "forwarded_flag (tracker (handle_message lib send_ok now s pkt src)) (msg_id m)"
    by (simp add: handle_message_admitted [OF assms])
qed

text \<open>
  C7. For an admitted message the router calls \<open>mark_forwarded\<close> with the
  identifier of the message once for every send that succeeds and never otherwise:
  there is at least one call if and only if some send of the fan-out succeeds, and
  no call when every send fails.
\<close>

theorem mark_forwarded_iff_send_succeeded:
  assumes "text_packet pkt m" and "admitted lib s m"
  shows "mark_calls (new_calls s (handle_message lib send_ok now s pkt src)) =
           map (\<lambda>k. msg_id m)
             (filter (\<lambda>k. k \<noteq> src \<and> send_ok k (msg_text m) (channel m))
                [0..<n_interfaces s]) \<and>
         (mark_calls (new_calls s (handle_message lib send_ok now s pkt src)) \<noteq> [] \<longleftrightarrow>
            (\<exists>k < n_interfaces s. k \<noteq> src \<and> send_ok k (msg_text m) (channel m)))"
proof -
  have eq: "mark_calls (new_calls s (handle_message lib send_ok now s pkt src)) =
           map (\<lambda>k. msg_id m)
             (filter (\<lambda>k. k \<noteq> src \<and> send_ok k (msg_text m) (channel m))
                [0..<n_interfaces s])"
    by (simp add: new_calls_admitted [OF assms] mark_calls_loop_calls)
  show ?thesis
    unfolding eq by (auto simp: filter_empty_conv)
qed

lemma admitted_hello: "admitted literal_lib (bridge_of n None) hello"
  by (simp add: admitted_def instance_defs Seen_def)

lemma admitted_busy: "admitted literal_lib (busy_bridge n) hello"
  by (simp add: admitted_def busy_bridge_def earlier_entry_def instance_defs Seen_def)

lemma busy_clock: "\<forall>e \<in> set (entries (tracker (busy_bridge n))). firstSeenAt e \<le> 5"
  by (simp add: busy_bridge_def earlier_entry_def instance_defs)

theorem fan_out_failure_isolation_witness:
  "text_packet hello_packet hello \<and> admitted literal_lib (busy_bridge 4) hello \<and>
   0 < maxMessages (tracker (busy_bridge 4)) \<and> 0 \<le> maxAge (tracker (busy_bridge 4)) \<and>
   map firstSeenAt (entries (tracker (busy_bridge 4))) = [0] \<and>
   filter is_send (new_calls (busy_bridge 4)
      (handle_message literal_lib (fails_at 2) 5 (busy_bridge 4) hello_packet 0)) =
     [SendText 1 ''hi'' 0, SendText 2 ''hi'' 0, SendText 3 ''hi'' 0] \<and>
   radio_stats_of (handle_message literal_lib (fails_at 2) 5 (busy_bridge 4) hello_packet 0) 1 =
     \<lparr>received = 0, sent = 1, errors = 0\<rparr> \<and>
   radio_stats_of (handle_message literal_lib (fails_at 2) 5 (busy_bridge 4) hello_packet 0) 2 =
     \<lparr>received = 0, sent = 0, errors = 1\<rparr> \<and>
   radio_stats_of (handle_message literal_lib (fails_at 2) 5 (busy_bridge 4) hello_packet 0) 3 =
     \<lparr>received = 0, sent = 1, errors = 0\<rparr> \<and>
   forwarded_flag
     (tracker (handle_message literal_lib (fails_at 2) 5 (busy_bridge 4) hello_packet 0)) 1 \<and>
   filter is_send (new_calls (busy_bridge 3)
      (handle_message literal_lib (fails_at 1) 5 (busy_bridge 3) hello_packet 0)) =
     [SendText 1 ''hi'' 0, SendText 2 ''hi'' 0] \<and>
   forwarded_flag
     (tracker (handle_message literal_lib (fails_at 1) 5 (busy_bridge 3) hello_packet 0)) 1"
  using fan_out_failure_isolation [OF text_packet_hello admitted_busy, of 4 "fails_at 2" 5 0]
    fan_out_failure_isolation [OF text_packet_hello admitted_busy, of 3 "fails_at 1" 5 0]
    text_packet_hello admitted_busy [of 4] busy_clock [of 4] busy_clock [of 3]
  by (simp add: router_defs instance_defs busy_bridge_def earlier_entry_def new_calls_def
      forwarded_flag_def upt3 upt4)

theorem mark_forwarded_iff_send_succeeded_witness:
  "text_packet hello_packet hello \<and> admitted literal_lib (bridge_of 4 None) hello \<and>
   mark_calls (new_calls (bridge_of 4 None)
      (handle_message literal_lib (fails_at 2) 0 (bridge_of 4 None) hello_packet 0)) = [1, 1] \<and>
   mark_calls (new_calls (bridge_of 4 None)
      (handle_message literal_lib none_ok 0 (bridge_of 4 None) hello_packet 0)) = []"
  using mark_forwarded_iff_send_succeeded [OF text_packet_hello admitted_hello, of 4 "fails_at 2" 0 0]
    mark_forwarded_iff_send_succeeded [OF text_packet_hello admitted_hello, of 4 none_ok 0 0]
    text_packet_hello admitted_hello [of 4]
  by (simp add: router_defs instance_defs new_calls_def upt4)

subsection \<open>Rejected messages\<close>

lemma total_checked_rejected:
  assumes "fst (should_forward lib f m) = Inr False"
  shows "total_checked (stats (snd (should_forward lib f m))) = total_checked (stats f) + 1"
proof (cases "enabled f")
  case False
  with assms show ?thesis by (simp add: should_forward_def)
next
  case True
  then show ?thesis
    by (cases "check_custom_rules lib (custom_rules f) m")
       (simp_all add: should_forward_def Let_def count_defs)
qed

lemma rejected_again:
  assumes "rejected lib s m"
  shows "rejected lib
           (s\<lparr> message_filter :=
                  map_option (\<lambda>f. snd (should_forward lib f m)) (message_filter s),
                metrics_of := x \<rparr>) m"
proof -
  from assms obtain f where f: "message_filter s = Some f"
      "fst (should_forward lib f m) = Inr False" and ns: "\<not> Seen (tracker s) (msg_id m)"
    by (auto simp: rejected_def split: option.splits)
  have "fst (should_forward lib (snd (should_forward lib f m)) m) = fst (should_forward lib f m)"
    by (subst should_forward_keeps_config) (rule should_forward_verdict_stats)
  with f ns show ?thesis by (simp add: rejected_def)
qed

text \<open>
  C1, as amended. For a text message not seen before that the filter rejects, the
  router stops without recording it: the tracker is unchanged, so the identifier
  stays unseen, no call is made on any interface or on the tracker, and the
  per-radio statistics are unchanged. A later re-delivery of the same packet, on any
  link, is therefore not dropped as a duplicate: the filter evaluates it again (its
  counter of checked messages has grown by two) and rejects it again, and still no
  send is made and nothing is recorded.
\<close>

theorem filtered_message_not_recorded:
  assumes "text_packet pkt m" and "rejected lib s m"
  shows "(let s' = handle_message lib send_ok now s pkt src;
              s'' = handle_message lib send_ok' now' s' pkt src'
          in tracker s' = tracker s \<and> \<not> Seen (tracker s') (msg_id m) \<and>
             calls s' = calls s \<and> radio_stats_of s' = radio_stats_of s \<and>
             rejected lib s' m \<and>
             tracker s'' = tracker s \<and> calls s'' = calls s \<and>
             radio_stats_of s'' = radio_stats_of s \<and>
             map_option (\<lambda>f. total_checked (stats f)) (message_filter s'') =
               map_option (\<lambda>f. total_checked (stats f) + 2) (message_filter s))"
proof -
  from assms(2) obtain f where f: "message_filter s = Some f"
      "fst (should_forward lib f m) = Inr False" and ns: "\<not> Seen (tracker s) (msg_id m)"
    by (auto simp: rejected_def split: option.splits)
  define f1 where "f1 = snd (should_forward lib f m)"
  define s1 where "s1 = handle_message lib send_ok now s pkt src"
  have s1: "s1 = s\<lparr> message_filter := Some f1,
                     metrics_of := map_option increment_filtered (metrics_of s) \<rparr>"
    unfolding s1_def f1_def using f by (simp add: handle_message_rejected [OF assms])
  have r1: "rejected lib s1 m"
    unfolding s1 f1_def using rejected_again [OF assms(2)] f by simp
  have v1: "fst (should_forward lib f1 m) = Inr False"
    using r1 by (simp add: s1 rejected_def)
  have mf1: "message_filter s1 = Some f1"
    by (simp add: s1)
  define s2 where "s2 = handle_message lib send_ok' now' s1 pkt src'"
  have s2: "s2 = s1\<lparr> message_filter := Some (snd (should_forward lib f1 m)),
                      metrics_of := map_option increment_filtered (metrics_of s1) \<rparr>"
    unfolding s2_def using mf1 by (simp add: handle_message_rejected [OF assms(1) r1])
  have c: "total_checked (stats (snd (should_forward lib f1 m))) = total_checked (stats f) + 2"
    using total_checked_rejected [OF v1] total_checked_rejected [OF f(2)]
    by (simp add: f1_def)
  show ?thesis
    unfolding Let_def s1_def [symmetric] s2_def [symmetric]
    using r1 ns c f by (simp add: s2 s1)
qed

lemma rejected_n2: "rejected literal_lib (bridge_of 3 (Some n2_filter)) n2_message"
  by (simp add: rejected_def instance_defs Seen_def filter_eval)

theorem filtered_message_not_recorded_witness:
  "text_packet n2_packet n2_message \<and>
   rejected literal_lib (bridge_of 3 (Some n2_filter)) n2_message \<and>
   calls (handle_message literal_lib all_ok 9
            (handle_message literal_lib all_ok 0 (bridge_of 3 (Some n2_filter)) n2_packet 0)
            n2_packet 1) = [] \<and>
   map_option (\<lambda>f. total_checked (stats f))
     (message_filter
        (handle_message literal_lib all_ok 9
           (handle_message literal_lib all_ok 0 (bridge_of 3 (Some n2_filter)) n2_packet 0)
           n2_packet 1)) = Some 2"
proof -
  have b: "calls (bridge_of 3 (Some n2_filter)) = []"
    "message_filter (bridge_of 3 (Some n2_filter)) = Some n2_filter"
    "total_checked (stats n2_filter) = 0"
    by (simp_all add: instance_defs)
  have "calls (handle_message literal_lib all_ok 9
            (handle_message literal_lib all_ok 0 (bridge_of 3 (Some n2_filter)) n2_packet 0)
            n2_packet 1) = [] \<and>
   map_option (\<lambda>f. total_checked (stats f))
     (message_filter
        (handle_message literal_lib all_ok 9
           (handle_message literal_lib all_ok 0 (bridge_of 3 (Some n2_filter)) n2_packet 0)
           n2_packet 1)) = Some 2"
    using filtered_message_not_recorded [OF text_packet_n2 rejected_n2, of all_ok 0 0 all_ok 9 1]
    by (simp add: Let_def b numeral_2_eq_2)
  with text_packet_n2 rejected_n2 show ?thesis by simp
qed

text \<open>
  The claim as it is worded fails: with the deny-list \<open>[N2]\<close>, after the pass on a
  message from \<open>N2\<close> its identifier is not seen by the tracker.
\<close>

theorem filtered_message_not_recorded_counterexample:
  "text_packet n2_packet n2_message \<and>
   rejected literal_lib (bridge_of 3 (Some n2_filter)) n2_message \<and>
   \<not> Seen (tracker (handle_message literal_lib all_ok 0 (bridge_of 3 (Some n2_filter))
                       n2_packet 0)) (msg_id n2_message)"
proof -
  have "\<not> Seen (tracker (handle_message literal_lib all_ok 0 (bridge_of 3 (Some n2_filter))
                       n2_packet 0)) (msg_id n2_message)"
    by (simp add: router_defs instance_defs filter_eval)
  with text_packet_n2 rejected_n2 show ?thesis by simp
qed

subsection \<open>Malformed patterns\<close>

lemma compile_patterns_compiled:
  "\<forall>p \<in> set ps. \<not> raises_other lib p \<Longrightarrow> compile_patterns lib ps = Inr (compiled lib ps)"
proof (induction ps)
  case Nil
  show ?case by (simp add: compiled_def)
next
  case (Cons p ps)
  then have ih: "compile_patterns lib ps = Inr (compiled lib ps)" by simp
  from Cons.prems have p: "\<not> raises_other lib p" by simp
  show ?case
  proof (cases "re_compile lib p")
    case (Inl e)
    with p have "e = ReError" by (simp add: raises_other_def)
    with Inl ih show ?thesis by (simp add: compiled_def)
  next
    case (Inr rx)
    with ih show ?thesis by (simp add: compiled_def)
  qed
qed

lemma compile_patterns_raises:
  "\<exists>p \<in> set ps. raises_other lib p \<Longrightarrow> \<exists>e. e \<noteq> ReError \<and> compile_patterns lib ps = Inl e"
proof (induction ps)
  case Nil
  then show ?case by simp
next
  case (Cons p ps)
  show ?case
  proof (cases "raises_other lib p")
    case True
    then obtain e where "re_compile lib p = Inl e" and "e \<noteq> ReError"
      by (auto simp: raises_other_def split: sum.splits)
    then show ?thesis by simp
  next
    case False
    with Cons.prems have "\<exists>p \<in> set ps. raises_other lib p" by simp
    from Cons.IH [OF this] obtain e where e: "e \<noteq> ReError" "compile_patterns lib ps = Inl e"
      by blast
    show ?thesis
    proof (cases "re_compile lib p")
      case (Inl e')
      with False have "e' = ReError" by (simp add: raises_other_def)
      with Inl e show ?thesis by simp
    next
      case (Inr rx)
      with e show ?thesis by simp
    qed
  qed
qed

lemma evaluate_rule_dict_raises:
  assumes "evaluate_rule_dict lib r m = Inl e"
  shows "filter_type r = ''regex'' \<and> re_compile lib (pattern r) = Inl e \<and> e \<noteq> ReError \<or>
         filter_type r = ''sender'' \<and> d_from m = None \<and> e = TypeError \<or>
         filter_type r = ''channel'' \<and> py_int lib (pattern r) = Inl e \<and>
           e \<noteq> ValueError \<and> e \<noteq> TypeError"
  using assms
  by (simp add: evaluate_rule_dict_def split: if_splits sum.splits option.splits)

lemma check_custom_rules_dict_raises:
  "check_custom_rules_dict lib rs m = Inl e \<Longrightarrow>
   \<exists>r \<in> set rs. evaluate_rule_dict lib r m = Inl e"
proof (induction rs)
  case Nil
  then show ?case by simp
next
  case (Cons r rs)
  show ?case
  proof (cases "evaluate_rule_dict lib r m")
    case (Inl e')
    with Cons.prems show ?thesis by simp
  next
    case (Inr b)
    with Cons.prems have "check_custom_rules_dict lib rs m = Inl e"
      by (simp split: if_splits)
    from Cons.IH [OF this] show ?thesis by simp
  qed
qed

lemma should_forward_dict_raises:
  assumes "fst (should_forward_dict lib f m) = Inl e"
  shows "enabled f \<and> check_custom_rules_dict lib (custom_rules f) m = Inl e"
proof (cases "check_custom_rules_dict lib (custom_rules f) m")
  case (Inl e')
  with assms show ?thesis
    by (simp add: should_forward_dict_def Let_def count_defs split: if_splits)
next
  case (Inr b)
  with assms show ?thesis
    by (simp add: should_forward_dict_def Let_def count_defs split: if_splits)
qed

text \<open>
  A compilation that raises something else than \<open>re.error\<close> for a content pattern
  leaves the constructor. An exception that leaves \<open>should_forward\<close> was raised with
  filtering enabled, by the evaluation of a custom rule.
\<close>

lemma filter_init_raises:
  assumes "\<exists>p \<in> set (cfg_regex_patterns cfg). raises_other lib p"
  shows "\<exists>e. e \<noteq> ReError \<and> filter_init lib cfg = Inl e"
  using compile_patterns_raises [OF assms] by (auto simp: filter_init_def)

lemma should_forward_dict_raises_in_rule:
  assumes "fst (should_forward_dict lib g m) = Inl x"
  shows "enabled g \<and> (\<exists>q \<in> set (custom_rules g). evaluate_rule_dict lib q m = Inl x)"
  using should_forward_dict_raises [OF assms] check_custom_rules_dict_raises by blast

text \<open>
  C8, as amended. A pattern among the content filters for which \<open>re.compile\<close>
  raises \<open>re.error\<close> is rejected when the filter is built: for a configuration none
  of whose content patterns makes \<open>re.compile\<close> raise anything else, the
  constructor returns, the compiled patterns are those of the configuration that
  compile, and every custom rule of the configuration is loaded, whatever its
  pattern. The pattern of a custom rule of kind regex is compiled at each evaluation
  of the rule: when \<open>re.compile\<close> raises nothing else than \<open>re.error\<close> for it, the
  rule matches if the pattern compiles and is found in the text, and does not match
  if the compilation raises \<open>re.error\<close>; in that case the evaluation goes on with
  the rules after it.
\<close>

theorem malformed_pattern_handling:
  "((\<forall>p \<in> set (cfg_regex_patterns cfg). \<not> raises_other lib p) \<longrightarrow>
      (\<exists>f. filter_init lib cfg = Inr f \<and>
           regex_patterns f = compiled lib (cfg_regex_patterns cfg) \<and>
           mset (custom_rules f) = mset (map rule_of_data (cfg_custom_rules cfg)))) \<and>
   (filter_type r = ''regex'' \<and> \<not> raises_other lib (pattern r) \<longrightarrow>
      evaluate_rule_dict lib r m =
        (case re_compile lib (pattern r) of
           Inr p \<Rightarrow> Inr (re_search lib p (d_text m))
         | Inl e \<Rightarrow> Inr False)) \<and>
   (filter_type r = ''regex'' \<and> re_compile lib (pattern r) = Inl ReError \<longrightarrow>
      check_custom_rules_dict lib (r # rest) m = check_custom_rules_dict lib rest m)"
proof (intro conjI impI)
  assume "\<forall>p \<in> set (cfg_regex_patterns cfg). \<not> raises_other lib p"
  then show "\<exists>f. filter_init lib cfg = Inr f \<and>
           regex_patterns f = compiled lib (cfg_regex_patterns cfg) \<and>
           mset (custom_rules f) = mset (map rule_of_data (cfg_custom_rules cfg))"
    by (simp add: filter_init_def compile_patterns_compiled load_custom_rules_def
        sort_by_priority_def)
next
  assume "filter_type r = ''regex'' \<and> \<not> raises_other lib (pattern r)"
  then show "evaluate_rule_dict lib r m =
        (case re_compile lib (pattern r) of
           Inr p \<Rightarrow> Inr (re_search lib p (d_text m))
         | Inl e \<Rightarrow> Inr False)"
    by (simp add: evaluate_rule_dict_def raises_other_def split: sum.splits)
next
  assume "filter_type r = ''regex'' \<and> re_compile lib (pattern r) = Inl ReError"
  then show "check_custom_rules_dict lib (r # rest) m = check_custom_rules_dict lib rest m"
    by (simp add: evaluate_rule_dict_def)
qed

lemma bad_regex_init:
  "filter_init literal_lib bad_regex_config =
     Inr (empty_filter\<lparr>regex_patterns := [''spam''],
                        custom_rules := [rule_of_data bad_regex_rule]\<rparr>)"
  by (simp add: filter_init_def bad_regex_config_def empty_config_def empty_filter_def
      literal_lib_def load_custom_rules_def sort_by_priority_def)

lemma overflow_content_init:
  "filter_init overflow_lib overflow_content_config = Inl OverflowError"
  by (simp add: filter_init_def overflow_content_config_def empty_config_def overflow_lib_def
      literal_lib_def overflow_pattern_def)

lemma pattern_facts:
  "cfg_regex_patterns bad_regex_config = [''('', ''spam'']"
  "\<not> raises_other literal_lib ''(''" "\<not> raises_other literal_lib ''spam''"
  "raises_other overflow_lib overflow_pattern"
  "filter_type (rule_of_data bad_regex_rule) = ''regex''"
  "re_compile literal_lib (pattern (rule_of_data bad_regex_rule)) = Inl ReError"
  "pattern (rule_of_data bad_regex_rule) = ''(''"
  "re_compile literal_lib ''('' = Inl ReError"
  by (simp_all add: bad_regex_config_def empty_config_def raises_other_def literal_lib_def
      overflow_content_config_def overflow_lib_def rule_of_data_def bad_regex_rule_def
      anonymous_hello_def)

lemma rule_evaluations:
  "evaluate_rule_dict literal_lib (rule_of_data bad_regex_rule) anonymous_hello = Inr False"
  "evaluate_rule_dict literal_lib (rule_of_data bad_sender_rule) anonymous_hello = Inl TypeError"
  "evaluate_rule_dict overflow_lib (rule_of_data overflow_rule) (dict_of hello) =
     Inl OverflowError"
  by (simp_all add: evaluate_rule_dict_def rule_of_data_def bad_regex_rule_def
      bad_sender_rule_def overflow_rule_def literal_lib_def overflow_lib_def
      anonymous_hello_def)

theorem malformed_pattern_handling_witness:
  "cfg_regex_patterns bad_regex_config = [''('', ''spam''] \<and>
   \<not> raises_other literal_lib ''('' \<and> \<not> raises_other literal_lib ''spam'' \<and>
   map_sum id regex_patterns (filter_init literal_lib bad_regex_config) = Inr [''spam''] \<and>
   map_sum id custom_rules (filter_init literal_lib bad_regex_config) =
     Inr [rule_of_data bad_regex_rule] \<and>
   filter_type (rule_of_data bad_regex_rule) = ''regex'' \<and>
   pattern (rule_of_data bad_regex_rule) = ''('' \<and>
   re_compile literal_lib ''('' = Inl ReError \<and>
   evaluate_rule_dict literal_lib (rule_of_data bad_regex_rule) anonymous_hello = Inr False \<and>
   check_custom_rules_dict literal_lib
     [rule_of_data bad_regex_rule, rule_of_data emergency_rule] anonymous_hello =
     check_custom_rules_dict literal_lib [rule_of_data emergency_rule] anonymous_hello"
  using malformed_pattern_handling
      [where lib = literal_lib and cfg = bad_regex_config
         and r = "rule_of_data bad_regex_rule" and rest = "[rule_of_data emergency_rule]"
         and m = anonymous_hello]
  by (simp add: pattern_facts rule_evaluations bad_regex_init)

text \<open>
  The claim as it is worded fails. The rule with the malformed pattern \<open>(\<close> is in
  the loaded rule list, and what it does at evaluation depends on the compilation
  made then. With \<open>re.compile\<close> raising \<open>OverflowError\<close> for \<open>a{4294967296}\<close>, the
  constructor raises for a configuration with this content pattern, and
  \<open>should_forward\<close> raises for a filter with this pattern in a custom rule of kind
  regex. \<open>should_forward\<close> also raises for a rule of kind sender and a message whose
  sender is \<open>None\<close>.
\<close>

theorem malformed_pattern_handling_counterexample:
  "filter_type (rule_of_data bad_regex_rule) = ''regex'' \<and>
   re_compile literal_lib (pattern (rule_of_data bad_regex_rule)) = Inl ReError \<and>
   map_sum id custom_rules (filter_init literal_lib bad_regex_config) =
     Inr [rule_of_data bad_regex_rule] \<and>
   evaluate_rule (literal_lib\<lparr>re_compile := Inr\<rparr>) (rule_of_data bad_regex_rule)
     (hello\<lparr>msg_text := ''f(x)''\<rparr>) = Inr True \<and>
   evaluate_rule literal_lib (rule_of_data bad_regex_rule)
     (hello\<lparr>msg_text := ''f(x)''\<rparr>) = Inr False \<and>
   filter_init overflow_lib overflow_content_config = Inl OverflowError \<and>
   filter_init overflow_lib overflow_config = Inr overflow_filter \<and>
   fst (should_forward overflow_lib overflow_filter hello) = Inl OverflowError \<and>
   fst (should_forward_dict literal_lib sender_filter anonymous_hello) = Inl TypeError"
proof -
  have "filter_type (rule_of_data bad_regex_rule) = ''regex'' \<and>
   re_compile literal_lib (pattern (rule_of_data bad_regex_rule)) = Inl ReError \<and>
   map_sum id custom_rules (filter_init literal_lib bad_regex_config) =
     Inr [rule_of_data bad_regex_rule] \<and>
   evaluate_rule (literal_lib\<lparr>re_compile := Inr\<rparr>) (rule_of_data bad_regex_rule)
     (hello\<lparr>msg_text := ''f(x)''\<rparr>) = Inr True \<and>
   evaluate_rule literal_lib (rule_of_data bad_regex_rule)
     (hello\<lparr>msg_text := ''f(x)''\<rparr>) = Inr False"
    by (simp add: filter_init_def bad_regex_config_def empty_config_def
      bad_regex_rule_def rule_of_data_def literal_lib_def load_custom_rules_def
      sort_by_priority_def evaluate_rule_def hello_def eval_string)
  then show ?thesis
    by (simp add: overflow_content_init overflow_init overflow_call anonymous_call)
qed

subsection \<open>Decoding\<close>

lemma seq_exclusive:
  "seq2 a b \<Longrightarrow> \<not> seq1 a"
  "seq3 a b c \<Longrightarrow> \<not> seq1 a \<and> \<not> seq2 a b'"
  "seq4 a b c d \<Longrightarrow> \<not> seq1 a \<and> \<not> seq2 a b' \<and> \<not> seq3 a b'' c'"
  by (auto simp: seq1_def seq2_def seq3_def seq4_def Let_def)

lemma decode_seq1: "seq1 a \<Longrightarrow> decode_ignore (a # r) = a # decode_ignore r"
  by (cases "a # r" rule: decode_ignore.cases) auto

lemma decode_seq2: "seq2 a b \<Longrightarrow> decode_ignore (a # b # r) = a # b # decode_ignore r"
  using seq_exclusive(1) [of a b]
  by (cases "a # b # r" rule: decode_ignore.cases) auto

lemma decode_seq3:
  "seq3 a b c \<Longrightarrow> decode_ignore (a # b # c # r) = a # b # c # decode_ignore r"
  using seq_exclusive(2) [of a b c b]
  by (cases "a # b # c # r" rule: decode_ignore.cases) auto

lemma decode_seq4:
  "seq4 a b c d \<Longrightarrow> decode_ignore (a # b # c # d # r) = a # b # c # d # decode_ignore r"
  using seq_exclusive(3) [of a b c d b b c]
  by (cases "a # b # c # d # r" rule: decode_ignore.cases) auto

lemma decode_well_formed_id: "well_formed_utf8 bs \<Longrightarrow> decode_ignore bs = bs"
  by (induction rule: well_formed_utf8.induct)
     (simp_all only: decode_ignore.simps(1) decode_seq1 decode_seq2 decode_seq3 decode_seq4)

lemma decode_subseq: "subseq (decode_ignore bs) bs"
  by (induction bs rule: decode_ignore.induct) auto

lemma decode_well_formed: "well_formed_utf8 (decode_ignore bs)"
  by (induction bs rule: decode_ignore.induct) (auto intro: well_formed_utf8.intros)

lemmas seq_defs = seq1_def seq2_def seq3_def seq4_def cont_byte_def

text \<open>
  C9, as amended. For a payload that is a byte string the router decodes the text as
  UTF-8 with the invalid bytes left out, never raising: the text is the payload
  without the bytes at which no well-formed sequence starts (a subsequence of the
  payload, itself well-formed UTF-8, and the payload itself when that is
  well-formed). The message is not dropped: the packet goes on through the routing
  pass as a text message with this text.
\<close>

theorem payload_decoded_dropping_invalid_bytes:
  "payload_text (Some (Bytes bs)) = decode_ignore bs \<and>
   subseq (decode_ignore bs) bs \<and>
   well_formed_utf8 (decode_ignore bs) \<and>
   (well_formed_utf8 bs \<longrightarrow> decode_ignore bs = bs) \<and>
   (pkt_decoded pkt = Some d \<and> portnum d = Some ''TEXT_MESSAGE_APP'' \<and>
    payload d = Some (Bytes bs) \<longrightarrow>
      text_packet pkt (message_of_packet pkt d) \<and>
      msg_text (message_of_packet pkt d) = decode_ignore bs)"
  by (simp add: payload_text_def decode_subseq decode_well_formed decode_well_formed_id
      text_packet_def message_of_packet_def)

lemma well_formed_hi: "well_formed_utf8 ''hi''"
  by (intro well_formed_utf8.intros) (simp_all add: seq1_def)

theorem payload_decoded_dropping_invalid_bytes_witness:
  "well_formed_utf8 ''hi'' \<and> decode_ignore ''hi'' = ''hi'' \<and>
   pkt_decoded garbled_packet =
     Some \<lparr> portnum = Some ''TEXT_MESSAGE_APP'', payload = Some (Bytes garbled_payload) \<rparr> \<and>
   msg_text (message_of_packet garbled_packet
     \<lparr> portnum = Some ''TEXT_MESSAGE_APP'', payload = Some (Bytes garbled_payload) \<rparr>) = ''hi'' \<and>
   calls (handle_message literal_lib all_ok 0 (bridge_of 3 None) garbled_packet 0) =
     [TrackerAdd 1, SendText 1 ''hi'' 0, TrackerMarkForwarded 1, SendText 2 ''hi'' 0,
      TrackerMarkForwarded 1]"
proof -
  have "decode_ignore ''hi'' = ''hi''"
    using payload_decoded_dropping_invalid_bytes [of "''hi''"] well_formed_hi by blast
  moreover have "msg_text (message_of_packet garbled_packet
     \<lparr> portnum = Some ''TEXT_MESSAGE_APP'', payload = Some (Bytes garbled_payload) \<rparr>) = ''hi''"
    using payload_decoded_dropping_invalid_bytes [of garbled_payload garbled_packet
       "\<lparr> portnum = Some ''TEXT_MESSAGE_APP'', payload = Some (Bytes garbled_payload) \<rparr>"]
    by (simp add: garbled_packet_def garbled_payload_def seq_defs)
  moreover have "calls (handle_message literal_lib all_ok 0 (bridge_of 3 None) garbled_packet 0) =
     [TrackerAdd 1, SendText 1 ''hi'' 0, TrackerMarkForwarded 1, SendText 2 ''hi'' 0,
      TrackerMarkForwarded 1]"
    by (simp add: router_defs instance_defs garbled_packet_def garbled_payload_def seq_defs upt3)
  ultimately show ?thesis
    using well_formed_hi by (simp add: garbled_packet_def)
qed

text \<open>
  The claim as it is worded fails: the byte FF between \<open>h\<close> and \<open>i\<close> is left out,
  where a replacing decoder puts U+FFFD.
\<close>

theorem payload_decoded_dropping_invalid_bytes_counterexample:
  "payload_text (Some (Bytes [CHR 0x68, CHR 0xFF, CHR 0x69])) = ''hi'' \<and>
   spec_decode_replace [CHR 0x68, CHR 0xFF, CHR 0x69] =
     [CHR 0x68, CHR 0xEF, CHR 0xBF, CHR 0xBD, CHR 0x69]"
  by (simp add: payload_text_def seq_defs replacement_char_def)

end
